theory Spec2Isabelle
  imports Main "HOL-Library.Word"
begin

unbundle bit_operations_syntax

section \<open>Machine types\<close>

text \<open>
  The header uses \<^verbatim>\<open>unsigned\<close> (32 bits), \<^verbatim>\<open>u8\<close>, \<^verbatim>\<open>u64\<close> and \<^verbatim>\<open>s64\<close>. They are words here:
  addition and subtraction wrap around, the order is the unsigned one. A C \<^verbatim>\<open>char\<close> is a
  \<^typ>\<open>char\<close>, so \<^verbatim>\<open>char *\<close> storage is a \<^typ>\<open>string\<close>.
\<close>

type_synonym u8 = "8 word"
type_synonym u32 = "32 word"
type_synonym u64 = "64 word"
type_synonym s64 = "64 word"

definition NUL :: char where
  "NUL = CHR 0x00"

section \<open>struct printbuf\<close>

datatype printbuf_si = PRINTBUF_UNITS_2 | PRINTBUF_UNITS_10

definition PRINTBUF_INLINE_TABSTOPS :: nat where
  "PRINTBUF_INLINE_TABSTOPS = 4"

text \<open>
  The fields of \<^verbatim>\<open>struct printbuf\<close>, in the order of the source. \<^verbatim>\<open>buf\<close> is a pointer in
  C; here it is the storage it points to, a list of bytes (the null pointer is the empty
  list). \<^verbatim>\<open>size\<close> is spelt \<open>size_f\<close> and \<^verbatim>\<open>_tabstops\<close> is spelt \<open>tabstops\<close>.
\<close>

record printbuf =
  buf :: string
  size_f :: u32
  pos :: u32
  last_newline :: u32
  last_field :: u32
  indent :: u32
  atomic :: u8
  allocation_failure :: bool
  heap_allocated :: bool
  si_units :: printbuf_si
  human_readable_units :: bool
  has_indent_or_tabstops :: bool
  suppress_indent_tabstop_handling :: bool
  nr_tabstops :: u8
  cur_tabstop :: u8
  tabstops :: "u8 list"

text \<open>The two initialisers. Every field that is not named is zero.\<close>

definition PRINTBUF :: printbuf where
  "PRINTBUF =
     \<lparr> buf = [], size_f = 0, pos = 0, last_newline = 0, last_field = 0, indent = 0,
       atomic = 0, allocation_failure = False, heap_allocated = True,
       si_units = PRINTBUF_UNITS_2, human_readable_units = False,
       has_indent_or_tabstops = False, suppress_indent_tabstop_handling = False,
       nr_tabstops = 0, cur_tabstop = 0,
       tabstops = replicate PRINTBUF_INLINE_TABSTOPS 0 \<rparr>"

definition PRINTBUF_EXTERN :: "string \<Rightarrow> u32 \<Rightarrow> printbuf" where
  "PRINTBUF_EXTERN b s =
     \<lparr> buf = b, size_f = s, pos = 0, last_newline = 0, last_field = 0, indent = 0,
       atomic = 0, allocation_failure = False, heap_allocated = False,
       si_units = PRINTBUF_UNITS_2, human_readable_units = False,
       has_indent_or_tabstops = False, suppress_indent_tabstop_handling = False,
       nr_tabstops = 0, cur_tabstop = 0,
       tabstops = replicate PRINTBUF_INLINE_TABSTOPS 0 \<rparr>"

text \<open>
  The storage really has \<^verbatim>\<open>size\<close> bytes: what the caller of \<^verbatim>\<open>PRINTBUF_EXTERN\<close>
  promises, and what the allocator provides for a heap buffer.
\<close>

definition storage_ok :: "printbuf \<Rightarrow> bool" where
  "storage_ok out \<longleftrightarrow> length (buf out) = unat (size_f out)"

section \<open>Accessors\<close>

definition printbuf_remaining_size :: "printbuf \<Rightarrow> u32" where
  "printbuf_remaining_size out =
     (if pos out < size_f out then size_f out - pos out else 0)"

definition printbuf_remaining :: "printbuf \<Rightarrow> u32" where
  "printbuf_remaining out =
     (if pos out < size_f out then size_f out - pos out - 1 else 0)"

definition printbuf_written :: "printbuf \<Rightarrow> u32" where
  "printbuf_written out =
     (if size_f out \<noteq> 0 then min (pos out) (size_f out - 1) else 0)"

definition printbuf_overflowed :: "printbuf \<Rightarrow> bool" where
  "printbuf_overflowed out \<longleftrightarrow> pos out \<ge> size_f out"

section \<open>Stores and loads\<close>

text \<open>
  A store through \<^verbatim>\<open>out->buf[i]\<close> outside the storage, and a load from a source array
  outside it, are undefined behaviour in C. They are results of their own here, so that
  "no store out of bounds" is a statement about what a function returns.
\<close>

datatype fault = Store_Out_Of_Bounds | Load_Out_Of_Bounds

definition store :: "printbuf \<Rightarrow> u32 \<Rightarrow> char \<Rightarrow> fault + printbuf" where
  "store out i c =
     (if unat i < length (buf out)
      then Inr (out\<lparr>buf := (buf out)[unat i := c]\<rparr>)
      else Inl Store_Out_Of_Bounds)"

definition and_then :: "fault + 'a \<Rightarrow> ('a \<Rightarrow> fault + 'b) \<Rightarrow> fault + 'b" where
  "and_then r f = (case r of Inl e \<Rightarrow> Inl e | Inr x \<Rightarrow> f x)"

section \<open>Write primitives\<close>

text \<open>
  \<^verbatim>\<open>printbuf_make_room\<close> is declared in the header and defined elsewhere. The functions
  that call it take it as the parameter \<open>mr\<close>: the state it leaves, given the state and
  the number of extra bytes. No caller in the header looks at the integer it returns.
  Names that start with two underscores in C start with \<open>uu_\<close> here.
\<close>

type_synonym make_room = "printbuf \<Rightarrow> u32 \<Rightarrow> printbuf"

definition printbuf_nul_terminate :: "make_room \<Rightarrow> printbuf \<Rightarrow> fault + printbuf" where
  "printbuf_nul_terminate mr out0 =
     (let out = mr out0 1 in
      if pos out < size_f out then store out (pos out) NUL
      else if size_f out \<noteq> 0 then store out (size_f out - 1) NUL
      else Inr out)"

definition uu_prt_char_reserved :: "printbuf \<Rightarrow> char \<Rightarrow> fault + printbuf" where
  "uu_prt_char_reserved out c =
     and_then (if printbuf_remaining out \<noteq> 0 then store out (pos out) c else Inr out)
       (\<lambda>out. Inr (out\<lparr>pos := pos out + 1\<rparr>))"

definition uu_prt_char :: "make_room \<Rightarrow> printbuf \<Rightarrow> char \<Rightarrow> fault + printbuf" where
  "uu_prt_char mr out c = uu_prt_char_reserved (mr out 1) c"

definition prt_char :: "make_room \<Rightarrow> printbuf \<Rightarrow> char \<Rightarrow> fault + printbuf" where
  "prt_char mr out c = and_then (uu_prt_char mr out c) (printbuf_nul_terminate mr)"

text \<open>The loop \<^verbatim>\<open>for (i = 0; i < can_print; i++) out->buf[out->pos++] = c;\<close>\<close>

function chars_loop :: "printbuf \<Rightarrow> char \<Rightarrow> u32 \<Rightarrow> u32 \<Rightarrow> fault + printbuf" where
  "chars_loop out c i can_print =
     (if i < can_print
      then (case store out (pos out) c of
              Inl e \<Rightarrow> Inl e
            | Inr out' \<Rightarrow> chars_loop (out'\<lparr>pos := pos out' + 1\<rparr>) c (i + 1) can_print)
      else Inr out)"
  by pat_completeness auto
termination
  by (relation "measure (\<lambda>(out, c, i, can_print). unat can_print - unat i)")
     (simp, unat_arith)

definition uu_prt_chars_reserved :: "printbuf \<Rightarrow> char \<Rightarrow> u32 \<Rightarrow> fault + printbuf" where
  "uu_prt_chars_reserved out c n =
     (let can_print = min n (printbuf_remaining out) in
      and_then (chars_loop out c 0 can_print)
        (\<lambda>out. Inr (out\<lparr>pos := pos out + (n - can_print)\<rparr>)))"

definition prt_chars :: "make_room \<Rightarrow> printbuf \<Rightarrow> char \<Rightarrow> u32 \<Rightarrow> fault + printbuf" where
  "prt_chars mr out c n =
     and_then (uu_prt_chars_reserved (mr out n) c n) (printbuf_nul_terminate mr)"

text \<open>
  The loop \<^verbatim>\<open>for (i = 0; i < can_print; i++) out->buf[out->pos++] = ((char *) b)[i];\<close>
  Here the source array \<open>b\<close> lies outside the storage of the buffer, so the stores of
  the loop do not change it: it is a list. Reading past its end is a load fault. The call
  with a source inside the storage is \<open>prt_bytes_from_buf\<close> below.
\<close>

function bytes_loop :: "printbuf \<Rightarrow> string \<Rightarrow> u32 \<Rightarrow> u32 \<Rightarrow> fault + printbuf" where
  "bytes_loop out b i can_print =
     (if i < can_print
      then (if unat i < length b
            then (case store out (pos out) (b ! unat i) of
                    Inl e \<Rightarrow> Inl e
                  | Inr out' \<Rightarrow> bytes_loop (out'\<lparr>pos := pos out' + 1\<rparr>) b (i + 1) can_print)
            else Inl Load_Out_Of_Bounds)
      else Inr out)"
  by pat_completeness auto
termination
  by (relation "measure (\<lambda>(out, b, i, can_print). unat can_print - unat i)")
     (simp, unat_arith)

definition prt_bytes :: "make_room \<Rightarrow> printbuf \<Rightarrow> string \<Rightarrow> u32 \<Rightarrow> fault + printbuf" where
  "prt_bytes mr out0 b n =
     (let out = mr out0 n;
          can_print = min n (printbuf_remaining out) in
      and_then (bytes_loop out b 0 can_print)
        (\<lambda>out. printbuf_nul_terminate mr (out\<lparr>pos := pos out + (n - can_print)\<rparr>)))"

text \<open>
  The same loop and the same function when the source lies inside the storage of the
  buffer: \<^verbatim>\<open>prt_bytes(out, out->buf + off, n)\<close>. Each \<^verbatim>\<open>b[i]\<close> is read from the storage
  as it is at that moment, after the stores of the earlier rounds. When
  \<^verbatim>\<open>printbuf_make_room\<close> has changed the storage it may have moved it; then \<open>b\<close> is taken
  to point into storage that was given up, and reading through it is a load fault. On
  an external buffer the storage is never changed.
\<close>

function from_buf_loop :: "printbuf \<Rightarrow> u32 \<Rightarrow> u32 \<Rightarrow> u32 \<Rightarrow> fault + printbuf" where
  "from_buf_loop out off i can_print =
     (if i < can_print
      then (if unat off + unat i < length (buf out)
            then (case store out (pos out) (buf out ! (unat off + unat i)) of
                    Inl e \<Rightarrow> Inl e
                  | Inr out' \<Rightarrow>
                      from_buf_loop (out'\<lparr>pos := pos out' + 1\<rparr>) off (i + 1) can_print)
            else Inl Load_Out_Of_Bounds)
      else Inr out)"
  by pat_completeness auto
termination
  by (relation "measure (\<lambda>(out, off, i, can_print). unat can_print - unat i)")
     (simp, unat_arith)

definition prt_bytes_from_buf :: "make_room \<Rightarrow> printbuf \<Rightarrow> u32 \<Rightarrow> u32 \<Rightarrow> fault + printbuf" where
  "prt_bytes_from_buf mr out0 off n =
     (let out = mr out0 n;
          can_print = min n (printbuf_remaining out) in
      if buf out \<noteq> buf out0 \<and> 0 < can_print then Inl Load_Out_Of_Bounds
      else and_then (from_buf_loop out off 0 can_print)
             (\<lambda>out. printbuf_nul_terminate mr (out\<lparr>pos := pos out + (n - can_print)\<rparr>)))"

text \<open>
  \<^verbatim>\<open>strlen\<close> counts the bytes before the first NUL; a list without one stands for a
  string whose terminator follows the list. The \<^verbatim>\<open>size_t\<close> result is converted to
  \<^verbatim>\<open>unsigned\<close> at the call of \<^verbatim>\<open>prt_bytes\<close>.
\<close>

definition strlen :: "string \<Rightarrow> nat" where
  "strlen str = length (takeWhile (\<lambda>c. c \<noteq> NUL) str)"

definition prt_str :: "make_room \<Rightarrow> printbuf \<Rightarrow> string \<Rightarrow> fault + printbuf" where
  "prt_str mr out str = prt_bytes mr out str (of_nat (strlen str))"

text \<open>
  Modelled from the spec: \<^verbatim>\<open>hex_asc_hi\<close>, \<^verbatim>\<open>hex_asc_lo\<close> and their upper-case variants
  are macros of \<^verbatim>\<open>linux/kernel.h\<close>, which is not among the sources. The spec says that a
  byte is written as two hex digits, high digit first, in the lower-case or the
  upper-case alphabet.
\<close>

definition hex_asc :: string where
  "hex_asc = ''0123456789abcdef''"

definition hex_asc_upper :: string where
  "hex_asc_upper = ''0123456789ABCDEF''"

definition hex_asc_lo :: "u8 \<Rightarrow> char" where
  "hex_asc_lo x = hex_asc ! unat (x AND 0x0f)"

definition hex_asc_hi :: "u8 \<Rightarrow> char" where
  "hex_asc_hi x = hex_asc ! unat (drop_bit 4 (x AND 0xf0))"

definition hex_asc_upper_lo :: "u8 \<Rightarrow> char" where
  "hex_asc_upper_lo x = hex_asc_upper ! unat (x AND 0x0f)"

definition hex_asc_upper_hi :: "u8 \<Rightarrow> char" where
  "hex_asc_upper_hi x = hex_asc_upper ! unat (drop_bit 4 (x AND 0xf0))"

definition prt_hex_byte :: "make_room \<Rightarrow> printbuf \<Rightarrow> u8 \<Rightarrow> fault + printbuf" where
  "prt_hex_byte mr out byte =
     and_then (uu_prt_char_reserved (mr out 2) (hex_asc_hi byte))
       (\<lambda>out. and_then (uu_prt_char_reserved out (hex_asc_lo byte))
          (printbuf_nul_terminate mr))"

definition prt_hex_byte_upper :: "make_room \<Rightarrow> printbuf \<Rightarrow> u8 \<Rightarrow> fault + printbuf" where
  "prt_hex_byte_upper mr out byte =
     and_then (uu_prt_char_reserved (mr out 2) (hex_asc_upper_hi byte))
       (\<lambda>out. and_then (uu_prt_char_reserved out (hex_asc_upper_lo byte))
          (printbuf_nul_terminate mr))"

section \<open>Reset and the atomic counter\<close>

definition printbuf_reset :: "printbuf \<Rightarrow> printbuf" where
  "printbuf_reset b =
     b\<lparr>pos := 0, allocation_failure := False, indent := 0, nr_tabstops := 0,
       cur_tabstop := 0\<rparr>"

definition printbuf_atomic_inc :: "printbuf \<Rightarrow> printbuf" where
  "printbuf_atomic_inc b = b\<lparr>atomic := atomic b + 1\<rparr>"

definition printbuf_atomic_dec :: "printbuf \<Rightarrow> printbuf" where
  "printbuf_atomic_dec b = b\<lparr>atomic := atomic b - 1\<rparr>"

section \<open>Calls and sequences of calls\<close>

text \<open>
  One constructor for each state-changing function that the header defines with a body
  of its own. \<^verbatim>\<open>prt_str_indented\<close> only forwards to \<^verbatim>\<open>prt_bytes_indented\<close>, which the
  header declares and does not define; it is not modelled. The source arrays of
  \<open>Call_prt_bytes\<close> and \<open>Call_prt_str\<close> lie outside the storage of the buffer.
\<close>

datatype call =
    Call_uu_prt_char_reserved char
  | Call_uu_prt_char char
  | Call_prt_char char
  | Call_uu_prt_chars_reserved char u32
  | Call_prt_chars char u32
  | Call_prt_bytes string u32
  | Call_prt_str string
  | Call_prt_hex_byte u8
  | Call_prt_hex_byte_upper u8
  | Call_printbuf_nul_terminate
  | Call_printbuf_reset
  | Call_printbuf_atomic_inc
  | Call_printbuf_atomic_dec

fun exec :: "make_room \<Rightarrow> call \<Rightarrow> printbuf \<Rightarrow> fault + printbuf" where
  "exec mr (Call_uu_prt_char_reserved c) out = uu_prt_char_reserved out c"
| "exec mr (Call_uu_prt_char c) out = uu_prt_char mr out c"
| "exec mr (Call_prt_char c) out = prt_char mr out c"
| "exec mr (Call_uu_prt_chars_reserved c n) out = uu_prt_chars_reserved out c n"
| "exec mr (Call_prt_chars c n) out = prt_chars mr out c n"
| "exec mr (Call_prt_bytes b n) out = prt_bytes mr out b n"
| "exec mr (Call_prt_str str) out = prt_str mr out str"
| "exec mr (Call_prt_hex_byte byte) out = prt_hex_byte mr out byte"
| "exec mr (Call_prt_hex_byte_upper byte) out = prt_hex_byte_upper mr out byte"
| "exec mr Call_printbuf_nul_terminate out = printbuf_nul_terminate mr out"
| "exec mr Call_printbuf_reset out = Inr (printbuf_reset out)"
| "exec mr Call_printbuf_atomic_inc out = Inr (printbuf_atomic_inc out)"
| "exec mr Call_printbuf_atomic_dec out = Inr (printbuf_atomic_dec out)"

fun run :: "make_room \<Rightarrow> call list \<Rightarrow> printbuf \<Rightarrow> fault + printbuf" where
  "run mr [] out = Inr out"
| "run mr (c # cs) out = and_then (exec mr c out) (run mr cs)"

text \<open>The public write primitives: make room, write, terminate.\<close>

fun public_write :: "call \<Rightarrow> bool" where
  "public_write (Call_prt_char c) = True"
| "public_write (Call_prt_chars c n) = True"
| "public_write (Call_prt_bytes b n) = True"
| "public_write (Call_prt_str str) = True"
| "public_write (Call_prt_hex_byte byte) = True"
| "public_write (Call_prt_hex_byte_upper byte) = True"
| "public_write _ = False"

text \<open>The bytes a call asks to append: its logical output, whether it fits or not.\<close>

fun requested :: "call \<Rightarrow> string" where
  "requested (Call_uu_prt_char_reserved c) = [c]"
| "requested (Call_uu_prt_char c) = [c]"
| "requested (Call_prt_char c) = [c]"
| "requested (Call_uu_prt_chars_reserved c n) = replicate (unat n) c"
| "requested (Call_prt_chars c n) = replicate (unat n) c"
| "requested (Call_prt_bytes b n) = take (unat n) b"
| "requested (Call_prt_str str) = takeWhile (\<lambda>c. c \<noteq> NUL) str"
| "requested (Call_prt_hex_byte byte) = [hex_asc_hi byte, hex_asc_lo byte]"
| "requested (Call_prt_hex_byte_upper byte) = [hex_asc_upper_hi byte, hex_asc_upper_lo byte]"
| "requested _ = []"

definition requested_all :: "call list \<Rightarrow> string" where
  "requested_all cs = concat (map requested cs)"

text \<open>What C asks of the caller: the array given to \<^verbatim>\<open>prt_bytes\<close> has \<open>n\<close> bytes.\<close>

fun valid_call :: "call \<Rightarrow> bool" where
  "valid_call (Call_prt_bytes b n) = (unat n \<le> length b)"
| "valid_call _ = True"

text \<open>The bytes that a reader of the buffer gets: those before the terminator slot.\<close>

definition written_bytes :: "printbuf \<Rightarrow> string" where
  "written_bytes out = take (unat (printbuf_written out)) (buf out)"

text \<open>Stored content, capacity, cursor, and what the four accessors return.\<close>

definition observe :: "printbuf \<Rightarrow> string \<times> u32 \<times> u32 \<times> u32 \<times> u32 \<times> u32 \<times> bool" where
  "observe out =
     (buf out, size_f out, pos out, printbuf_remaining_size out, printbuf_remaining out,
      printbuf_written out, printbuf_overflowed out)"

section \<open>The writes as state transformers\<close>

text \<open>
  What the write primitives are shown to compute when no store faults. \<open>put out r\<close>
  appends the bytes \<open>r\<close> at the cursor: the bytes that fit before the terminator slot
  are stored, the cursor advances by the whole length. \<open>terminate out\<close> stores a NUL at
  the cursor, or in the last slot when the cursor is beyond it.
\<close>

definition put :: "printbuf \<Rightarrow> string \<Rightarrow> printbuf" where
  "put out r =
     out\<lparr>buf := take (unat (pos out)) (buf out) @
                take (unat (printbuf_remaining out)) r @
                drop (unat (pos out) + min (length r) (unat (printbuf_remaining out))) (buf out),
         pos := pos out + of_nat (length r)\<rparr>"

definition terminate :: "printbuf \<Rightarrow> printbuf" where
  "terminate out =
     out\<lparr>buf := (buf out)[min (unat (pos out)) (unat (size_f out) - 1) := NUL]\<rparr>"

fun effect :: "make_room \<Rightarrow> call \<Rightarrow> printbuf \<Rightarrow> printbuf" where
  "effect mr (Call_uu_prt_char_reserved c) out = put out [c]"
| "effect mr (Call_uu_prt_char c) out = put (mr out 1) [c]"
| "effect mr (Call_prt_char c) out = terminate (mr (put (mr out 1) [c]) 1)"
| "effect mr (Call_uu_prt_chars_reserved c n) out = put out (replicate (unat n) c)"
| "effect mr (Call_prt_chars c n) out =
     terminate (mr (put (mr out n) (replicate (unat n) c)) 1)"
| "effect mr (Call_prt_bytes b n) out = terminate (mr (put (mr out n) (take (unat n) b)) 1)"
| "effect mr (Call_prt_str str) out =
     terminate (mr (put (mr out (of_nat (strlen str)))
                        (take (unat (of_nat (strlen str) :: u32)) str)) 1)"
| "effect mr (Call_prt_hex_byte byte) out =
     terminate (mr (put (put (mr out 2) [hex_asc_hi byte]) [hex_asc_lo byte]) 1)"
| "effect mr (Call_prt_hex_byte_upper byte) out =
     terminate (mr (put (put (mr out 2) [hex_asc_upper_hi byte]) [hex_asc_upper_lo byte]) 1)"
| "effect mr Call_printbuf_nul_terminate out = terminate (mr out 1)"
| "effect mr Call_printbuf_reset out = printbuf_reset out"
| "effect mr Call_printbuf_atomic_inc out = printbuf_atomic_inc out"
| "effect mr Call_printbuf_atomic_dec out = printbuf_atomic_dec out"

text \<open>
  The buffer shows the logical sequence \<open>xs\<close>: the cursor is the length of \<open>xs\<close>, and the
  bytes stored before the terminator slot are the first bytes of \<open>xs\<close>.
\<close>

definition shows_prefix :: "printbuf \<Rightarrow> string \<Rightarrow> bool" where
  "shows_prefix out xs \<longleftrightarrow>
     unat (pos out) = length xs \<and>
     take (min (length xs) (unat (size_f out) - 1)) (buf out) =
       take (unat (size_f out) - 1) xs"

section \<open>What the callers need of printbuf_make_room\<close>

text \<open>
  The properties of \<^verbatim>\<open>printbuf_make_room\<close> that the theorems below assume of the
  parameter \<open>mr\<close>, each one only where it is needed. It keeps \<^verbatim>\<open>size\<close> the number of
  bytes of the storage; it leaves the cursor alone; on an external buffer it does nothing
  (the spec: growth is never attempted); it never shrinks the capacity (the spec: the
  capacity only increases).
\<close>

definition make_room_keeps_storage :: "make_room \<Rightarrow> bool" where
  "make_room_keeps_storage mr \<longleftrightarrow> (\<forall>out n. storage_ok out \<longrightarrow> storage_ok (mr out n))"

definition make_room_keeps_pos :: "make_room \<Rightarrow> bool" where
  "make_room_keeps_pos mr \<longleftrightarrow> (\<forall>out n. pos (mr out n) = pos out)"

definition make_room_extern_noop :: "make_room \<Rightarrow> bool" where
  "make_room_extern_noop mr \<longleftrightarrow> (\<forall>out n. \<not> heap_allocated out \<longrightarrow> mr out n = out)"

definition make_room_never_shrinks :: "make_room \<Rightarrow> bool" where
  "make_room_never_shrinks mr \<longleftrightarrow> (\<forall>out n. size_f out \<le> size_f (mr out n))"

text \<open>
  Two states with the same storage, capacity, cursor, ownership mode and failure flag.
  The other fields (line and field marks, indent, tabstops, unit flags, the atomic
  counter) may differ.
\<close>

definition same_core :: "printbuf \<Rightarrow> printbuf \<Rightarrow> bool" where
  "same_core p q \<longleftrightarrow>
     buf p = buf q \<and> size_f p = size_f q \<and> pos p = pos q \<and>
     heap_allocated p = heap_allocated q \<and> allocation_failure p = allocation_failure q"

text \<open>
  \<^verbatim>\<open>printbuf_make_room\<close> may look at the atomic counter as well, to choose how to
  allocate. It treats alike two states that agree on these fields.
\<close>

definition same_for_make_room :: "printbuf \<Rightarrow> printbuf \<Rightarrow> bool" where
  "same_for_make_room p q \<longleftrightarrow> same_core p q \<and> atomic p = atomic q"

definition make_room_uniform :: "make_room \<Rightarrow> bool" where
  "make_room_uniform mr \<longleftrightarrow>
     (\<forall>p q n. same_for_make_room p q \<longrightarrow> same_for_make_room (mr p n) (mr q n))"

section \<open>A model of printbuf_make_room\<close>

text \<open>
  Modelled from the spec: the growth policy of \<^verbatim>\<open>printbuf_make_room\<close>, whose body is not
  among the sources. The spec says that the capacity grows by doubling until it
  suffices: \<open>c\<close> is doubled until it reaches \<open>need\<close>.
\<close>

function double_until :: "nat \<Rightarrow> nat \<Rightarrow> nat" where
  "double_until c need = (if need \<le> c \<or> c = 0 then c else double_until (2 * c) need)"
  by pat_completeness auto
termination
  by (relation "measure (\<lambda>(c, need). need - c)") auto

text \<open>
  Modelled from the spec: \<^verbatim>\<open>printbuf_make_room\<close> is declared in the header and its body
  is not among the sources. The spec says: in external mode growth is never attempted
  and the call is a no-op; in heap mode, if cursor + n + 1 exceeds the capacity, the
  capacity grows by doubling until it suffices, with a minimum growth chunk, the
  allocation being non-blocking when the atomic counter is nonzero; when the allocation
  fails the failure flag is set and the content stays as it is. The minimum chunk is the
  parameter \<open>chunk\<close>. The allocator is the parameter \<open>alloc\<close>: asked for a number of
  further bytes, non-blocking or not, it fails or gives the content of the new bytes. A
  capacity that an \<^verbatim>\<open>unsigned\<close> cannot hold counts as a failed allocation.
\<close>

definition printbuf_make_room ::
  "nat \<Rightarrow> (bool \<Rightarrow> nat \<Rightarrow> (nat \<Rightarrow> char) option) \<Rightarrow> printbuf \<Rightarrow> u32 \<Rightarrow> printbuf" where
  "printbuf_make_room chunk alloc out extra =
     (if \<not> heap_allocated out then out
      else
        let need = unat (pos out) + unat extra + 1;
            old_size = unat (size_f out);
            new_size = double_until (max old_size chunk) need
        in
          if need \<le> unat (size_f out) then out
          else if new_size < need \<or> 2 ^ 32 \<le> new_size
          then out\<lparr>allocation_failure := True\<rparr>
          else (case alloc (atomic out \<noteq> 0) (new_size - old_size) of
                  None \<Rightarrow> out\<lparr>allocation_failure := True\<rparr>
                | Some fresh \<Rightarrow>
                    out\<lparr>buf := buf out @ map fresh [old_size..<new_size],
                        size_f := of_nat new_size\<rparr>))"

text \<open>
  Three allocators: one that always succeeds, one that always fails, one that fails
  every non-blocking request.
\<close>

definition alloc_ok :: "bool \<Rightarrow> nat \<Rightarrow> (nat \<Rightarrow> char) option" where
  "alloc_ok nonblocking k = Some (\<lambda>i. CHR ''#'')"

definition alloc_fail :: "bool \<Rightarrow> nat \<Rightarrow> (nat \<Rightarrow> char) option" where
  "alloc_fail nonblocking k = None"

definition alloc_blocking_only :: "bool \<Rightarrow> nat \<Rightarrow> (nat \<Rightarrow> char) option" where
  "alloc_blocking_only nonblocking k = (if nonblocking then None else Some (\<lambda>i. CHR ''#''))"

section \<open>A model of the human-readable formatter\<close>

text \<open>
  Modelled from the spec: the formatter behind \<^verbatim>\<open>prt_human_readable_u64\<close>, whose body is
  not among the sources. The spec says that zero and values below the first threshold
  are rendered as a plain integer: the decimal digits of a number.
\<close>

function decimal :: "nat \<Rightarrow> string" where
  "decimal n =
     (if n < 10 then [''0123456789'' ! n]
      else decimal (n div 10) @ [''0123456789'' ! (n mod 10)])"
  by pat_completeness auto
termination
  by (relation "measure (\<lambda>n. n)") auto

text \<open>
  Modelled from the spec: the magnitude step of the formatter. The spec says that the
  threshold for stepping to the next suffix is reaching the base in the current unit, and
  names six suffixes.
\<close>

function magnitude_step :: "nat \<Rightarrow> nat \<Rightarrow> nat \<Rightarrow> nat" where
  "magnitude_step base v k =
     (if k < 6 \<and> base \<le> v div base ^ k then magnitude_step base v (k + 1) else k)"
  by pat_completeness auto
termination
  by (relation "measure (\<lambda>(base, v, k). 6 - k)") auto

text \<open>
  Modelled from the spec: the base of the formatter. The spec says that binary mode
  scales by powers of 1024 and decimal mode by powers of 1000.
\<close>

definition unit_base :: "printbuf_si \<Rightarrow> nat" where
  "unit_base si = (case si of PRINTBUF_UNITS_2 \<Rightarrow> 1024 | PRINTBUF_UNITS_10 \<Rightarrow> 1000)"

text \<open>
  Modelled from the spec: the text that \<^verbatim>\<open>prt_human_readable_u64\<close> writes; the function is
  declared in the header and its body is not among the sources. The spec says: scale by
  powers of 1024 (binary mode) or 1000 (decimal mode), with the suffixes K, M, G, T, P, E,
  stepping to the next suffix when the value reaches the base in the current unit; zero
  and values below the first threshold are a plain integer; otherwise the integer part,
  a point, one fractional digit, the suffix, where the fractional digit is the first
  decimal digit of the remainder after the division by the scale factor, truncated.
\<close>

definition human_readable :: "printbuf_si \<Rightarrow> nat \<Rightarrow> string" where
  "human_readable si v =
     (let base = unit_base si;
          k = magnitude_step base v 0;
          scale = base ^ k
      in if k = 0 then decimal v
         else decimal (v div scale) @ ''.'' @ decimal ((v mod scale) * 10 div scale) @
              [''KMGTPE'' ! (k - 1)])"

text \<open>
  Modelled from the spec: \<^verbatim>\<open>prt_human_readable_u64\<close>, declared in the header, its body
  not among the sources. It writes the text above, in the unit mode of the buffer, as a
  public write.
\<close>

definition prt_human_readable_u64 :: "make_room \<Rightarrow> printbuf \<Rightarrow> u64 \<Rightarrow> fault + printbuf" where
  "prt_human_readable_u64 mr out v = prt_str mr out (human_readable (si_units out) (unat v))"

text \<open>
  Modelled from the spec: \<^verbatim>\<open>prt_human_readable_s64\<close>, declared in the header, its body
  not among the sources. The spec says that the signed variant handles the sign
  separately and then formats the absolute magnitude, with the sign as a leading minus.
\<close>

definition prt_human_readable_s64 :: "make_room \<Rightarrow> printbuf \<Rightarrow> s64 \<Rightarrow> fault + printbuf" where
  "prt_human_readable_s64 mr out v =
     (if sint v < 0
      then and_then (prt_char mr out CHR ''-'') (\<lambda>out. prt_human_readable_u64 mr out (- v))
      else prt_human_readable_u64 mr out v)"

section \<open>Arithmetic of the accessors\<close>

lemma unat_min: "unat (min (a::'a::len word) b) = min (unat a) (unat b)"
  by (simp add: min_def word_le_nat_alt)

lemma unat_remaining:
  "unat (printbuf_remaining out) =
     (if unat (pos out) < unat (size_f out) then unat (size_f out) - unat (pos out) - 1 else 0)"
proof (cases "pos out < size_f out")
  case True
  then have le: "pos out \<le> size_f out" by simp
  have "unat (size_f out - pos out) = unat (size_f out) - unat (pos out)"
    using le by (rule unat_sub)
  moreover have "size_f out - pos out \<noteq> 0" using True by auto
  ultimately show ?thesis using True
    by (simp add: printbuf_remaining_def word_less_nat_alt unat_minus_one)
next
  case False
  then show ?thesis by (simp add: printbuf_remaining_def word_less_nat_alt)
qed

lemma unat_plus_u32:
  "unat (x::u32) + unat y < 2 ^ 32 \<Longrightarrow> unat (x + y) = unat x + unat y"
  using unat_add_lem [of x y] by simp

lemma unat_Suc_u32: "unat (x::u32) + 1 < 2 ^ 32 \<Longrightarrow> unat (x + 1) = Suc (unat x)"
  using unat_plus_u32 [of x 1] by simp

declare chars_loop.simps [simp del] bytes_loop.simps [simp del] from_buf_loop.simps [simp del]

lemma chars_loop_as_bytes_loop:
  "unat n \<le> m \<Longrightarrow> chars_loop out c i n = bytes_loop out (replicate m c) i n"
proof (induction out c i n rule: chars_loop.induct)
  case (1 out c i can_print)
  show ?case
  proof (cases "i < can_print")
    case True
    then have lt: "unat i < m" using "1.prems" by (simp add: word_less_nat_alt)
    show ?thesis
    proof (cases "store out (pos out) c")
      case (Inl e)
      then show ?thesis using True lt
        by (subst chars_loop.simps, subst bytes_loop.simps) simp
    next
      case (Inr out')
      then show ?thesis using True lt "1.IH" [OF True Inr "1.prems"]
        by (subst chars_loop.simps, subst bytes_loop.simps) simp
    qed
  next
    case False
    then show ?thesis
      by (subst chars_loop.simps, subst bytes_loop.simps) simp
  qed
qed

lemma bytes_loop_closed:
  assumes "unat n - unat i = k" and "i \<le> n" and "unat n \<le> length b"
    and "length (buf out) < 2 ^ 32"
    and "0 < k \<longrightarrow> unat (pos out) + k \<le> length (buf out)"
  shows "bytes_loop out b i n =
           Inr (out\<lparr>buf := take (unat (pos out)) (buf out) @ take k (drop (unat i) b) @
                           drop (unat (pos out) + k) (buf out),
                    pos := pos out + (n - i)\<rparr>)"
  using assms
proof (induction k arbitrary: out i)
  case 0
  then have "i = n" by (simp add: word_le_nat_alt word_unat_eq_iff)
  then show ?case by (subst bytes_loop.simps) simp
next
  case (Suc k)
  let ?P = "unat (pos out)"
  from Suc.prems have lt: "i < n" by (simp add: word_less_nat_alt)
  then have ui: "unat (i + 1) = Suc (unat i)" by unat_arith
  from Suc.prems have inb: "?P < length (buf out)" by simp
  then have up: "unat (pos out + 1) = Suc ?P" using Suc.prems(4) by (simp add: unat_Suc_u32)
  have ib: "unat i < length b" using Suc.prems lt by (simp add: word_less_nat_alt)
  let ?o1 = "out\<lparr>buf := (buf out)[?P := b ! unat i], pos := pos out + 1\<rparr>"
  have st: "store out (pos out) (b ! unat i) = Inr (out\<lparr>buf := (buf out)[?P := b ! unat i]\<rparr>)"
    using inb by (simp add: store_def)
  have ih: "bytes_loop ?o1 b (i + 1) n =
      Inr (?o1\<lparr>buf := take (unat (pos ?o1)) (buf ?o1) @ take k (drop (unat (i + 1)) b) @
                           drop (unat (pos ?o1) + k) (buf ?o1),
                pos := pos ?o1 + (n - (i + 1))\<rparr>)"
  proof (rule Suc.IH)
    show "unat n - unat (i + 1) = k" using Suc.prems(1) ui by simp
    show "i + 1 \<le> n" using lt by (rule inc_le)
    show "unat n \<le> length b" by (rule Suc.prems(3))
    show "length (buf ?o1) < 2 ^ 32" using Suc.prems(4) by simp
    show "0 < k \<longrightarrow> unat (pos ?o1) + k \<le> length (buf ?o1)"
      using Suc.prems(5) up by simp
  qed
  have l1: "take (Suc ?P) ((buf out)[?P := b ! unat i]) = take ?P (buf out) @ [b ! unat i]"
    using inb by (simp add: take_Suc_conv_app_nth)
  have l2: "take (Suc k) (drop (unat i) b) = b ! unat i # take k (drop (Suc (unat i)) b)"
    using ib by (simp add: Cons_nth_drop_Suc [symmetric])
  have "bytes_loop out b i n = bytes_loop ?o1 b (i + 1) n"
    using lt ib st by (subst bytes_loop.simps) simp
  also note ih
  finally show ?case
    by (simp add: up ui l1 l2)
qed

section \<open>The primitives compute put and terminate\<close>

lemma put_fields [simp]:
  "pos (put out r) = pos out + of_nat (length r)"
  "size_f (put out r) = size_f out"
  "heap_allocated (put out r) = heap_allocated out"
  "allocation_failure (put out r) = allocation_failure out"
  by (simp_all add: put_def)

lemma terminate_fields [simp]:
  "pos (terminate out) = pos out"
  "size_f (terminate out) = size_f out"
  "heap_allocated (terminate out) = heap_allocated out"
  "allocation_failure (terminate out) = allocation_failure out"
  "length (buf (terminate out)) = length (buf out)"
  by (simp_all add: terminate_def)

lemma put_fits:
  assumes "storage_ok out" and "0 < min (length r) (unat (printbuf_remaining out))"
  shows "unat (pos out) + min (length r) (unat (printbuf_remaining out)) < length (buf out)"
  using assms unat_remaining [of out] by (auto simp: storage_ok_def split: if_splits)

lemma length_buf_put:
  assumes "storage_ok out"
  shows "length (buf (put out r)) = length (buf out)"
proof (cases "0 < min (length r) (unat (printbuf_remaining out))")
  case True
  from put_fits [OF assms True] show ?thesis by (simp add: put_def) 
next
  case False
  then show ?thesis by (auto simp: put_def min_def split: if_splits)
qed

lemma storage_ok_put [simp]: "storage_ok out \<Longrightarrow> storage_ok (put out r)"
  using length_buf_put [of out r] by (simp add: storage_ok_def)

lemma storage_ok_terminate [simp]: "storage_ok out \<Longrightarrow> storage_ok (terminate out)"
  by (simp add: storage_ok_def)

lemma storage_lt: "storage_ok out \<Longrightarrow> length (buf out) < 2 ^ 32"
  using unsigned_less [of "size_f out", where 'a = nat] by (simp add: storage_ok_def)

lemma uu_prt_char_reserved_put:
  assumes "storage_ok out"
  shows "uu_prt_char_reserved out c = Inr (put out [c])"
proof (cases "printbuf_remaining out = 0")
  case True
  then show ?thesis
    by (simp add: uu_prt_char_reserved_def and_then_def put_def)
next
  case False
  then have r: "0 < unat (printbuf_remaining out)" by (simp add: unat_gt_0)
  then have "0 < min (length [c]) (unat (printbuf_remaining out))" by simp
  from put_fits [OF assms this] have inb: "unat (pos out) < length (buf out)" by simp
  have m: "min (Suc 0) (unat (printbuf_remaining out)) = Suc 0" using r by simp
  have t: "take (unat (printbuf_remaining out)) [c] = [c]" using r by simp
  show ?thesis using False inb
    by (simp add: uu_prt_char_reserved_def and_then_def put_def store_def m t
          upd_conv_take_nth_drop)
qed

lemma bytes_loop_put:
  assumes ok: "storage_ok out" and nb: "unat n \<le> length b"
  shows "and_then (bytes_loop out b 0 (min n (printbuf_remaining out)))
           (\<lambda>out'. Inr (out'\<lparr>pos := pos out' + (n - min n (printbuf_remaining out))\<rparr>)) =
         Inr (put out (take (unat n) b))"
proof -
  let ?cp = "min n (printbuf_remaining out)"
  let ?k = "unat ?cp"
  have k: "?k = min (unat n) (unat (printbuf_remaining out))" by (simp add: unat_min)
  have fits: "0 < ?k \<longrightarrow> unat (pos out) + ?k \<le> length (buf out)"
    using put_fits [OF ok, of "take (unat n) b"] nb k
    by (auto simp: min_absorb2 intro: less_imp_le)
  have loop: "bytes_loop out b 0 ?cp =
      Inr (out\<lparr>buf := take (unat (pos out)) (buf out) @ take ?k (drop (unat (0::u32)) b) @
                       drop (unat (pos out) + ?k) (buf out),
               pos := pos out + (?cp - 0)\<rparr>)"
  proof (rule bytes_loop_closed)
    show "unat ?cp - unat (0::u32) = ?k" by simp
    show "0 \<le> ?cp" by simp
    show "unat ?cp \<le> length b" using nb k by simp
    show "length (buf out) < 2 ^ 32" using ok by (rule storage_lt)
    show "0 < ?k \<longrightarrow> unat (pos out) + ?k \<le> length (buf out)" by (rule fits)
  qed
  have tk: "take (unat (printbuf_remaining out)) (take (unat n) b) = take ?k b"
    by (simp add: k min.commute)
  have ln: "min (length (take (unat n) b)) (unat (printbuf_remaining out)) = ?k"
    using nb by (simp add: k min_absorb2)
  have ps: "pos out + ?cp + (n - ?cp) = pos out + of_nat (length (take (unat n) b))"
    using nb by (simp add: min_absorb2)
  show ?thesis
    unfolding loop and_then_def put_def tk ln using ps by simp
qed

lemma uu_prt_chars_reserved_put:
  assumes "storage_ok out"
  shows "uu_prt_chars_reserved out c n = Inr (put out (replicate (unat n) c))"
proof -
  let ?cp = "min n (printbuf_remaining out)"
  have le: "unat ?cp \<le> unat n" by (simp add: unat_min)
  have "uu_prt_chars_reserved out c n =
      and_then (bytes_loop out (replicate (unat n) c) 0 ?cp)
        (\<lambda>out'. Inr (out'\<lparr>pos := pos out' + (n - ?cp)\<rparr>))"
    by (simp add: uu_prt_chars_reserved_def Let_def chars_loop_as_bytes_loop [OF le])
  also have "\<dots> = Inr (put out (take (unat n) (replicate (unat n) c)))"
    using assms by (rule bytes_loop_put) simp
  finally show ?thesis by simp
qed

lemma printbuf_nul_terminate_terminate:
  assumes "storage_ok (mr out 1)"
  shows "printbuf_nul_terminate mr out = Inr (terminate (mr out 1))"
proof -
  let ?o = "mr out 1"
  have len: "length (buf ?o) = unat (size_f ?o)" using assms by (simp add: storage_ok_def)
  show ?thesis
  proof (cases "pos ?o < size_f ?o")
    case True
    then have lt: "unat (pos ?o) < unat (size_f ?o)" by (simp add: word_less_nat_alt)
    then have "min (unat (pos ?o)) (unat (size_f ?o) - 1) = unat (pos ?o)" by simp
    then show ?thesis using True lt len
      by (simp add: printbuf_nul_terminate_def Let_def store_def terminate_def)
  next
    case False
    then have ge: "unat (size_f ?o) \<le> unat (pos ?o)" by (simp add: word_less_nat_alt)
    then have m: "min (unat (pos ?o)) (unat (size_f ?o) - 1) = unat (size_f ?o) - 1" by simp
    show ?thesis
    proof (cases "size_f ?o = 0")
      case True
      then have "buf ?o = []" using len by simp
      then show ?thesis using True False
        by (simp add: printbuf_nul_terminate_def Let_def terminate_def)
    next
      case nz: False
      then have "0 < unat (size_f ?o)" by (simp add: unat_gt_0)
      then have "unat (size_f ?o - 1) < length (buf ?o)" using len nz
        by (simp add: unat_minus_one)
      then show ?thesis using nz False m
        by (simp add: printbuf_nul_terminate_def Let_def store_def terminate_def unat_minus_one)
    qed
  qed
qed

section \<open>A call computes its effect\<close>

lemma and_then_Inr [simp]: "and_then (Inr x) f = f x"
  by (simp add: and_then_def)

lemma and_then_Inl [simp]: "and_then (Inl e) f = Inl e"
  by (simp add: and_then_def)

lemma and_then_split: "and_then r (\<lambda>x. f (g x)) = and_then (and_then r (\<lambda>x. Inr (g x))) f"
  by (cases r) simp_all

lemma prt_bytes_effect:
  assumes ok: "storage_ok (mr out n)"
    and ok': "storage_ok (mr (put (mr out n) (take (unat n) b)) 1)"
    and nb: "unat n \<le> length b"
  shows "prt_bytes mr out b n = Inr (terminate (mr (put (mr out n) (take (unat n) b)) 1))"
proof -
  have "prt_bytes mr out b n =
      and_then (and_then (bytes_loop (mr out n) b 0 (min n (printbuf_remaining (mr out n))))
                  (\<lambda>out'. Inr (out'\<lparr>pos := pos out' + (n - min n (printbuf_remaining (mr out n)))\<rparr>)))
        (printbuf_nul_terminate mr)"
    unfolding prt_bytes_def Let_def by (rule and_then_split)
  also have "\<dots> = printbuf_nul_terminate mr (put (mr out n) (take (unat n) b))"
    using bytes_loop_put [OF ok nb] by simp
  also have "\<dots> = Inr (terminate (mr (put (mr out n) (take (unat n) b)) 1))"
    using ok' by (rule printbuf_nul_terminate_terminate)
  finally show ?thesis .
qed

lemma unat_strlen_le: "unat (of_nat (strlen str) :: u32) \<le> length str"
proof -
  have "unat (of_nat (strlen str) :: u32) \<le> strlen str"
    by (simp add: unat_of_nat)
  also have "\<dots> \<le> length str" by (simp add: strlen_def length_takeWhile_le)
  finally show ?thesis .
qed

text \<open>
  \<open>G\<close> is a property of the states that \<^verbatim>\<open>printbuf_make_room\<close> is called on: it implies
  that the storage has \<^verbatim>\<open>size\<close> bytes, and \<^verbatim>\<open>printbuf_make_room\<close> and \<open>put\<close> keep it.
\<close>

lemma exec_effect_on:
  assumes G: "\<And>p. G p \<Longrightarrow> storage_ok p"
    and Gm: "\<And>p k. G p \<Longrightarrow> G (mr p k)"
    and Gp: "\<And>p r. G p \<Longrightarrow> G (put p r)"
    and G0: "G out" and v: "valid_call c"
  shows "exec mr c out = Inr (effect mr c out)"
proof -
  have c1: "uu_prt_char_reserved p ch = Inr (put p [ch])" if "G p" for p ch
    using that by (intro uu_prt_char_reserved_put G)
  have cn: "uu_prt_chars_reserved p ch n = Inr (put p (replicate (unat n) ch))" if "G p" for p ch n
    using that by (intro uu_prt_chars_reserved_put G)
  have nt: "printbuf_nul_terminate mr p = Inr (terminate (mr p 1))" if "G p" for p
    using that by (intro printbuf_nul_terminate_terminate G Gm)
  have pb: "prt_bytes mr p b n = Inr (terminate (mr (put (mr p n) (take (unat n) b)) 1))"
    if "G p" and "unat n \<le> length b" for p b n
    using that by (intro prt_bytes_effect G Gm Gp)
  show ?thesis
  proof (cases c)
    case (Call_uu_prt_char_reserved ch)
    then show ?thesis using G0 by (simp add: c1)
  next
    case (Call_uu_prt_char ch)
    then show ?thesis using G0 by (simp add: uu_prt_char_def c1 Gm)
  next
    case (Call_prt_char ch)
    then show ?thesis using G0 by (simp add: prt_char_def uu_prt_char_def c1 nt Gm Gp)
  next
    case (Call_uu_prt_chars_reserved ch n)
    then show ?thesis using G0 by (simp add: cn)
  next
    case (Call_prt_chars ch n)
    then show ?thesis using G0 by (simp add: prt_chars_def cn nt Gm Gp)
  next
    case (Call_prt_bytes b n)
    then show ?thesis using G0 v by (simp add: pb)
  next
    case (Call_prt_str str)
    then show ?thesis using G0 by (simp add: prt_str_def pb unat_strlen_le)
  next
    case (Call_prt_hex_byte byte)
    then show ?thesis using G0 by (simp add: prt_hex_byte_def c1 nt Gm Gp)
  next
    case (Call_prt_hex_byte_upper byte)
    then show ?thesis using G0 by (simp add: prt_hex_byte_upper_def c1 nt Gm Gp)
  next
    case Call_printbuf_nul_terminate
    then show ?thesis using G0 by (simp add: nt)
  qed simp_all
qed

lemma exec_effect:
  assumes ok: "storage_ok out" and mr: "make_room_keeps_storage mr" and v: "valid_call c"
  shows "exec mr c out = Inr (effect mr c out)"
proof (rule exec_effect_on [where G = storage_ok])
  show "storage_ok (mr p k)" if "storage_ok p" for p k
    using mr that by (simp add: make_room_keeps_storage_def)
qed (use ok v in simp_all)

lemma exec_effect_extern:
  assumes ok: "storage_ok out" and ext: "\<not> heap_allocated out"
    and noop: "make_room_extern_noop mr" and v: "valid_call c"
  shows "exec mr c out = Inr (effect mr c out)"
proof (rule exec_effect_on [where G = "\<lambda>p. storage_ok p \<and> \<not> heap_allocated p"])
  show "storage_ok (mr p k) \<and> \<not> heap_allocated (mr p k)"
    if "storage_ok p \<and> \<not> heap_allocated p" for p k
    using noop that by (simp add: make_room_extern_noop_def)
qed (use ok ext v in simp_all)

lemma storage_ok_effect:
  assumes ok: "storage_ok out" and mr: "make_room_keeps_storage mr"
  shows "storage_ok (effect mr c out)"
proof -
  have ks: "\<And>p k. storage_ok p \<Longrightarrow> storage_ok (mr p k)"
    using mr by (simp add: make_room_keeps_storage_def)
  have r: "storage_ok (printbuf_reset out)" "storage_ok (printbuf_atomic_inc out)"
    "storage_ok (printbuf_atomic_dec out)"
    using ok by (simp_all add: storage_ok_def printbuf_reset_def printbuf_atomic_inc_def
        printbuf_atomic_dec_def)
  show ?thesis using ok r
    by (cases c) (simp_all add: ks)
qed

lemma run_storage:
  assumes "storage_ok out" and "make_room_keeps_storage mr" and "\<forall>c\<in>set cs. valid_call c"
  shows "\<exists>out'. run mr cs out = Inr out' \<and> storage_ok out'"
  using assms
proof (induction cs arbitrary: out)
  case Nil
  then show ?case by simp
next
  case (Cons c cs)
  then have "exec mr c out = Inr (effect mr c out)" by (simp add: exec_effect)
  moreover have "storage_ok (effect mr c out)" using Cons.prems by (simp add: storage_ok_effect)
  ultimately show ?case using Cons by simp
qed

section \<open>The model of printbuf_make_room meets what the callers need\<close>

declare double_until.simps [simp del] decimal.simps [simp del] magnitude_step.simps [simp del]

lemma double_until_ge: "c \<le> double_until c need"
proof (induction c need rule: double_until.induct)
  case (1 c need)
  show ?case
  proof (cases "need \<le> c \<or> c = 0")
    case True
    then show ?thesis by (subst double_until.simps) simp
  next
    case False
    then have "2 * c \<le> double_until (2 * c) need" by (rule "1.IH")
    then show ?thesis using False by (subst double_until.simps) simp
  qed
qed

lemma printbuf_make_room_extern_noop:
  "make_room_extern_noop (printbuf_make_room chunk alloc)"
  by (simp add: make_room_extern_noop_def printbuf_make_room_def)

lemma printbuf_make_room_keeps_pos:
  "make_room_keeps_pos (printbuf_make_room chunk alloc)"
  by (simp add: make_room_keeps_pos_def printbuf_make_room_def Let_def split: option.split)

lemma unat_of_nat_u32: "n < 2 ^ 32 \<Longrightarrow> unat (of_nat n :: u32) = n"
  by (simp add: unat_of_nat)

lemma printbuf_make_room_never_shrinks:
  "make_room_never_shrinks (printbuf_make_room chunk alloc)"
proof -
  have "size_f out \<le> size_f (printbuf_make_room chunk alloc out n)" for out n
  proof -
    let ?new = "double_until (max (unat (size_f out)) chunk) (unat (pos out) + unat n + 1)"
    have "unat (size_f out) \<le> ?new"
      using double_until_ge [of "max (unat (size_f out)) chunk" "unat (pos out) + unat n + 1"]
      by simp
    then have "?new < 2 ^ 32 \<Longrightarrow> size_f out \<le> of_nat ?new"
      by (simp add: word_le_nat_alt unat_of_nat_u32)
    then show ?thesis
      by (simp add: printbuf_make_room_def Let_def split: option.split)
  qed
  then show ?thesis by (simp add: make_room_never_shrinks_def)
qed

lemma printbuf_make_room_cases:
  obtains (same) "printbuf_make_room chunk alloc out n = out"
  | (failed) "printbuf_make_room chunk alloc out n = out\<lparr>allocation_failure := True\<rparr>"
  | (grown) fresh where
      "printbuf_make_room chunk alloc out n =
         out\<lparr>buf := buf out @ map fresh [unat (size_f out)..<
                  double_until (max (unat (size_f out)) chunk) (unat (pos out) + unat n + 1)],
             size_f := of_nat
                  (double_until (max (unat (size_f out)) chunk) (unat (pos out) + unat n + 1))\<rparr>"
      "double_until (max (unat (size_f out)) chunk) (unat (pos out) + unat n + 1) < 2 ^ 32"
proof -
  let ?need = "unat (pos out) + unat n + 1"
  let ?new = "double_until (max (unat (size_f out)) chunk) ?need"
  show ?thesis
  proof (cases "\<not> heap_allocated out \<or> ?need \<le> unat (size_f out)")
    case True
    then have "printbuf_make_room chunk alloc out n = out"
      by (auto simp: printbuf_make_room_def Let_def)
    then show ?thesis by (rule same)
  next
    case c1: False
    show ?thesis
    proof (cases "?new < ?need \<or> 2 ^ 32 \<le> ?new")
      case True
      then have "printbuf_make_room chunk alloc out n = out\<lparr>allocation_failure := True\<rparr>"
        using c1 unfolding printbuf_make_room_def Let_def by simp
      then show ?thesis by (rule failed)
    next
      case c2: False
      show ?thesis
      proof (cases "alloc (atomic out \<noteq> 0) (?new - unat (size_f out))")
        case None
        then have "printbuf_make_room chunk alloc out n = out\<lparr>allocation_failure := True\<rparr>"
          using c1 c2 unfolding printbuf_make_room_def Let_def by simp
        then show ?thesis by (rule failed)
      next
        case (Some fresh)
        then have "printbuf_make_room chunk alloc out n =
            out\<lparr>buf := buf out @ map fresh [unat (size_f out)..<?new], size_f := of_nat ?new\<rparr>"
          using c1 c2 unfolding printbuf_make_room_def Let_def by simp
        moreover have "?new < 2 ^ 32" using c2 by simp
        ultimately show ?thesis by (rule grown)
      qed
    qed
  qed
qed

lemma printbuf_make_room_keeps_storage:
  "make_room_keeps_storage (printbuf_make_room chunk alloc)"
proof -
  have "storage_ok (printbuf_make_room chunk alloc out n)" if ok: "storage_ok out" for out n
  proof (cases rule: printbuf_make_room_cases [where chunk = chunk and alloc = alloc and out = out and n = n])
    case same
    then show ?thesis using ok by simp
  next
    case failed
    then show ?thesis using ok by (simp add: storage_ok_def)
  next
    case (grown fresh)
    let ?new = "double_until (max (unat (size_f out)) chunk) (unat (pos out) + unat n + 1)"
    have "unat (size_f out) \<le> ?new"
      using double_until_ge [of "max (unat (size_f out)) chunk" "unat (pos out) + unat n + 1"]
      by simp
    then have "length (buf out) + (?new - unat (size_f out)) = unat (of_nat ?new :: u32)"
      using ok grown(2) by (simp add: storage_ok_def unat_of_nat_u32)
    then show ?thesis unfolding grown(1) by (simp add: storage_ok_def)
  qed
  then show ?thesis by (simp add: make_room_keeps_storage_def)
qed

lemma printbuf_make_room_uniform:
  "make_room_uniform (printbuf_make_room chunk alloc)"
proof -
  have "same_for_make_room (printbuf_make_room chunk alloc p n)
          (printbuf_make_room chunk alloc q n)"
    if "same_for_make_room p q" for p q n
  proof -
    from that have e: "buf p = buf q" "size_f p = size_f q" "pos p = pos q"
      "heap_allocated p = heap_allocated q" "allocation_failure p = allocation_failure q"
      "atomic p = atomic q"
      by (simp_all add: same_for_make_room_def same_core_def)
    let ?new = "double_until (max (unat (size_f q)) chunk) (unat (pos q) + unat n + 1)"
    show ?thesis
    proof (cases "alloc (atomic q \<noteq> 0) (?new - unat (size_f q))")
      case None
      then show ?thesis
        unfolding printbuf_make_room_def Let_def e same_for_make_room_def same_core_def
        by (simp add: e)
    next
      case (Some fresh)
      then show ?thesis
        unfolding printbuf_make_room_def Let_def e same_for_make_room_def same_core_def
        by (simp add: e)
    qed
  qed
  then show ?thesis by (simp add: make_room_uniform_def)
qed

section \<open>What put and terminate change\<close>

lemma drop_eq_mono:
  assumes "drop a xs = drop a ys" and "a \<le> b"
  shows "drop b xs = drop b ys"
proof -
  have "drop b xs = drop (b - a) (drop a xs)" using assms(2) by simp
  also have "\<dots> = drop (b - a) (drop a ys)" using assms(1) by simp
  also have "\<dots> = drop b ys" using assms(2) by simp
  finally show ?thesis .
qed

lemma put_buf_cases:
  assumes ok: "storage_ok out"
  obtains (none) "min (length r) (unat (printbuf_remaining out)) = 0"
      "buf (put out r) = buf out"
  | (some) "0 < min (length r) (unat (printbuf_remaining out))"
      "unat (pos out) + min (length r) (unat (printbuf_remaining out)) < length (buf out)"
      "unat (pos out) + min (length r) (unat (printbuf_remaining out)) \<le> unat (size_f out) - 1"
      "buf (put out r) =
         take (unat (pos out)) (buf out) @
         take (min (length r) (unat (printbuf_remaining out))) r @
         drop (unat (pos out) + min (length r) (unat (printbuf_remaining out))) (buf out)"
proof -
  let ?k = "min (length r) (unat (printbuf_remaining out))"
  have t: "take (unat (printbuf_remaining out)) r = take ?k r"
    by (cases "length r \<le> unat (printbuf_remaining out)") (simp_all add: min_def)
  have b: "buf (put out r) =
      take (unat (pos out)) (buf out) @ take ?k r @ drop (unat (pos out) + ?k) (buf out)"
    unfolding put_def t by simp
  show ?thesis
  proof (cases "?k = 0")
    case True
    then have "buf (put out r) = buf out" unfolding b by simp
    with True show ?thesis by (rule none)
  next
    case False
    then have pos: "0 < ?k" by simp
    from put_fits [OF ok pos] have 1: "unat (pos out) + ?k < length (buf out)" .
    have 2: "unat (pos out) + ?k \<le> unat (size_f out) - 1"
      using unat_remaining [of out] pos by (auto split: if_splits)
    from pos 1 2 b show ?thesis by (rule some)
  qed
qed

lemma put_frame:
  assumes ok: "storage_ok out"
  shows "take (unat (pos out)) (buf (put out r)) = take (unat (pos out)) (buf out)"
    and "drop (unat (pos out) + min (length r) (unat (printbuf_remaining out))) (buf (put out r)) =
         drop (unat (pos out) + min (length r) (unat (printbuf_remaining out))) (buf out)"
    and "drop (unat (size_f out) - 1) (buf (put out r)) = drop (unat (size_f out) - 1) (buf out)"
    and "take (min (length r) (unat (printbuf_remaining out))) (drop (unat (pos out)) (buf (put out r))) =
         take (min (length r) (unat (printbuf_remaining out))) r"
proof -
  let ?P = "unat (pos out)" and ?S = "unat (size_f out)"
  let ?k = "min (length r) (unat (printbuf_remaining out))"
  show "take ?P (buf (put out r)) = take ?P (buf out)"
    using ok by (cases rule: put_buf_cases [where r = r]) simp_all
  have kr: "?k \<le> length r" by simp
  show d: "drop (?P + ?k) (buf (put out r)) = drop (?P + ?k) (buf out)"
    using ok
  proof (cases rule: put_buf_cases [where r = r])
    case none then show ?thesis by simp
  next
    case some
    have "length (take ?P (buf out) @ take ?k r) = ?P + ?k" using some(2) by simp
    then show ?thesis unfolding some(4)
      by (metis append.assoc append_eq_conv_conj)
  qed
  show "drop (?S - 1) (buf (put out r)) = drop (?S - 1) (buf out)"
    using ok
  proof (cases rule: put_buf_cases [where r = r])
    case none then show ?thesis by simp
  next
    case some
    from d some(3) show ?thesis by (rule drop_eq_mono)
  qed
  show "take ?k (drop ?P (buf (put out r))) = take ?k r"
    using ok
  proof (cases rule: put_buf_cases [where r = r])
    case none then show ?thesis by simp
  next
    case some
    have "length (take ?P (buf out)) = ?P" using some(2) by simp
    then have "drop ?P (buf (put out r)) = take ?k r @ drop (?P + ?k) (buf out)"
      unfolding some(4) by (metis append_eq_conv_conj)
    then show ?thesis by simp
  qed
qed

lemma terminate_nul:
  assumes "storage_ok out" and "size_f out \<noteq> 0"
  shows "buf (terminate out) ! min (unat (pos (terminate out))) (unat (size_f (terminate out)) - 1) = NUL"
proof -
  have "0 < unat (size_f out)" using assms(2) by (simp add: unat_gt_0)
  then have "min (unat (pos out)) (unat (size_f out) - 1) < length (buf out)"
    using assms(1) by (simp add: storage_ok_def)
  then show ?thesis by (simp add: terminate_def)
qed

lemma pos_effect:
  assumes kp: "make_room_keeps_pos mr" and v: "valid_call c" and nr: "c \<noteq> Call_printbuf_reset"
  shows "pos (effect mr c out) = pos out + of_nat (length (requested c))"
proof -
  have p: "pos (mr q k) = pos q" for q k using kp by (simp add: make_room_keeps_pos_def)
  show ?thesis
  proof (cases c)
    case (Call_prt_bytes b n)
    then show ?thesis using v by (simp add: p min_absorb2)
  next
    case (Call_prt_str str)
    have "min (length str) (unat (of_nat (strlen str) :: u32)) = unat (of_nat (strlen str) :: u32)"
      using unat_strlen_le [of str] by simp
    then show ?thesis using Call_prt_str by (simp add: p strlen_def)
  qed (use nr in \<open>simp_all add: p printbuf_atomic_inc_def printbuf_atomic_dec_def\<close>)
qed

section \<open>No store faults\<close>

lemma bytes_loop_pad:
  "bytes_loop out b i n = Inl Load_Out_Of_Bounds \<or>
   bytes_loop out b i n = bytes_loop out (b @ pad) i n"
proof (induction out b i n rule: bytes_loop.induct)
  case (1 out b i can_print)
  show ?case
  proof (cases "i < can_print")
    case False
    then show ?thesis by (subst bytes_loop.simps, subst (3) bytes_loop.simps) simp
  next
    case lt: True
    show ?thesis
    proof (cases "unat i < length b")
      case False
      then show ?thesis using lt by (subst bytes_loop.simps) simp
    next
      case inb: True
      then have nth: "(b @ pad) ! unat i = b ! unat i" and inb': "unat i < length (b @ pad)"
        by (simp_all add: nth_append)
      show ?thesis
      proof (cases "store out (pos out) (b ! unat i)")
        case (Inl e)
        then have "bytes_loop out b i can_print = bytes_loop out (b @ pad) i can_print"
          using lt inb inb' nth
          by (subst bytes_loop.simps, subst (2) bytes_loop.simps) (simp del: length_append)
        then show ?thesis by simp
      next
        case (Inr out')
        let ?o = "out'\<lparr>pos := pos out' + 1\<rparr>"
        have l: "bytes_loop out b i can_print = bytes_loop ?o b (i + 1) can_print"
          using lt inb Inr by (subst bytes_loop.simps) simp
        have r: "bytes_loop out (b @ pad) i can_print = bytes_loop ?o (b @ pad) (i + 1) can_print"
          using lt inb' nth Inr by (subst bytes_loop.simps) (simp del: length_append)
        from "1.IH" [OF lt inb Inr] show ?thesis unfolding l r .
      qed
    qed
  qed
qed

lemma prt_bytes_pad:
  "prt_bytes mr out b n = Inl Load_Out_Of_Bounds \<or>
   prt_bytes mr out b n = prt_bytes mr out (b @ pad) n"
  using bytes_loop_pad [of "mr out n" b 0 "min n (printbuf_remaining (mr out n))" pad]
  by (auto simp: prt_bytes_def Let_def)

lemma exec_storage:
  assumes ok: "storage_ok out" and ks: "make_room_keeps_storage mr"
  shows "exec mr c out = Inl Load_Out_Of_Bounds \<or>
         (\<exists>out'. exec mr c out = Inr out' \<and> storage_ok out')"
proof (cases "valid_call c")
  case True
  with ok ks have "exec mr c out = Inr (effect mr c out)" by (rule exec_effect)
  moreover have "storage_ok (effect mr c out)" using ok ks by (rule storage_ok_effect)
  ultimately show ?thesis by simp
next
  case False
  then obtain b n where c: "c = Call_prt_bytes b n"
    by (cases c) simp_all
  let ?b = "b @ replicate (unat n) NUL"
  have v: "valid_call (Call_prt_bytes ?b n)" by simp
  have "exec mr (Call_prt_bytes ?b n) out = Inr (effect mr (Call_prt_bytes ?b n) out)"
    using ok ks v by (rule exec_effect)
  moreover have "storage_ok (effect mr (Call_prt_bytes ?b n) out)"
    using ok ks by (rule storage_ok_effect)
  ultimately have "\<exists>out'. prt_bytes mr out ?b n = Inr out' \<and> storage_ok out'" by simp
  then show ?thesis
    using prt_bytes_pad [of mr out b n "replicate (unat n) NUL"] c by auto
qed

lemma run_no_store_fault:
  assumes "storage_ok out" and "make_room_keeps_storage mr"
  shows "run mr cs out = Inl Load_Out_Of_Bounds \<or>
         (\<exists>out'. run mr cs out = Inr out' \<and> storage_ok out')"
  using assms(1)
proof (induction cs arbitrary: out)
  case Nil
  then show ?case by simp
next
  case (Cons c cs)
  from exec_storage [OF Cons.prems assms(2), of c]
  show ?case
  proof
    assume "exec mr c out = Inl Load_Out_Of_Bounds"
    then show ?thesis by simp
  next
    assume "\<exists>out'. exec mr c out = Inr out' \<and> storage_ok out'"
    then obtain out' where "exec mr c out = Inr out'" "storage_ok out'" by blast
    then show ?thesis using Cons.IH [of out'] by simp
  qed
qed

section \<open>The buffer shows a prefix of what was requested\<close>

lemma unat_written:
  "unat (printbuf_written out) =
     (if size_f out = 0 then 0 else min (unat (pos out)) (unat (size_f out) - 1))"
  by (simp add: printbuf_written_def unat_min unat_minus_one)

lemma min_add_left: "a \<le> c \<Longrightarrow> min (a + b) c = a + min b (c - a)" for a b c :: nat
  by (auto simp: min_def)

lemma take_min_length: "take (min (length xs) n) xs = take n xs"
  by (cases "length xs \<le> n") (simp_all add: min_def)

lemma shows_prefix_put:
  assumes ok: "storage_ok out" and sp: "shows_prefix out xs"
    and nw: "length xs + length r < 2 ^ 32"
  shows "shows_prefix (put out r) (xs @ r)"
proof -
  let ?P = "unat (pos out)" and ?S = "unat (size_f out)"
  let ?R = "unat (printbuf_remaining out)"
  let ?k = "min (length r) ?R"
  from sp have P: "?P = length xs"
    and pre: "take (min (length xs) (?S - 1)) (buf out) = take (?S - 1) xs"
    by (simp_all add: shows_prefix_def)
  have "unat (of_nat (length r) :: u32) = length r" using nw by (simp add: unat_of_nat_u32)
  then have cur: "unat (pos (put out r)) = length (xs @ r)"
    using nw P by (simp add: unat_plus_u32)
  have R: "?R = (if ?P < ?S then ?S - ?P - 1 else 0)" by (rule unat_remaining)
  have "take (min (length (xs @ r)) (?S - 1)) (buf (put out r)) = take (?S - 1) (xs @ r)"
    using ok
  proof (cases rule: put_buf_cases [where r = r])
    case none
    show ?thesis
    proof (cases "r = []")
      case True
      then show ?thesis using none pre by simp
    next
      case False
      then have "?R = 0" using none by (simp add: min_def split: if_splits)
      then have ge: "?S - 1 \<le> length xs" using R P by (simp split: if_splits)
      then show ?thesis using none(2) pre by (simp add: min_absorb2)
    qed
  next
    case some
    then have Rpos: "0 < ?R" by simp
    then have lt: "?P < ?S" and Req: "?R = ?S - ?P - 1" using R by (simp_all split: if_splits)
    have le: "length xs \<le> ?S - 1" using Rpos Req P by simp
    have tx: "take ?P (buf out) = xs" using pre le P by (simp add: min_absorb1)
    have m: "min (length (xs @ r)) (?S - 1) = length xs + ?k"
      using min_add_left [OF le, of "length r"] Req P by simp
    have "take (length xs + ?k) (xs @ take ?k r @ drop (?P + ?k) (buf out)) = xs @ take ?k r"
      by simp
    moreover have "take (?S - 1) (xs @ r) = xs @ take ?k r"
      using le Req P by (simp add: min_def)
    ultimately show ?thesis unfolding some(4) tx m by simp
  qed
  with cur show ?thesis by (simp add: shows_prefix_def)
qed

lemma shows_prefix_terminate:
  assumes "shows_prefix out xs"
  shows "shows_prefix (terminate out) xs"
proof -
  from assms have P: "unat (pos out) = length xs" by (simp add: shows_prefix_def)
  have "take (min (length xs) (unat (size_f out) - 1))
          ((buf out)[min (length xs) (unat (size_f out) - 1) := NUL]) =
        take (min (length xs) (unat (size_f out) - 1)) (buf out)"
    by simp
  then show ?thesis using assms by (simp add: shows_prefix_def terminate_def P)
qed

lemma public_write_shows:
  assumes ok: "storage_ok out" and ext: "\<not> heap_allocated out"
    and noop: "make_room_extern_noop mr"
    and sp: "shows_prefix out xs"
    and pw: "public_write c" and v: "valid_call c"
    and nw: "length xs + length (requested c) < 2 ^ 32"
  shows "storage_ok (effect mr c out) \<and> \<not> heap_allocated (effect mr c out) \<and>
         size_f (effect mr c out) = size_f out \<and>
         shows_prefix (effect mr c out) (xs @ requested c)"
proof -
  have id: "mr p k = p" if "\<not> heap_allocated p" for p k
    using noop that by (simp add: make_room_extern_noop_def)
  have step: "storage_ok (terminate (put out r)) \<and> \<not> heap_allocated (terminate (put out r)) \<and>
      size_f (terminate (put out r)) = size_f out \<and>
      shows_prefix (terminate (put out r)) (xs @ r)"
    if "length xs + length r < 2 ^ 32" for r
    using that ok ext sp by (simp add: shows_prefix_terminate shows_prefix_put)
  have step2: "storage_ok (terminate (put (put out [a]) [b])) \<and>
      \<not> heap_allocated (terminate (put (put out [a]) [b])) \<and>
      size_f (terminate (put (put out [a]) [b])) = size_f out \<and>
      shows_prefix (terminate (put (put out [a]) [b])) (xs @ [a, b])"
    if "length xs + 2 < (2::nat) ^ 32" for a b
  proof -
    have 1: "shows_prefix (put out [a]) (xs @ [a])"
      by (rule shows_prefix_put [OF ok sp]) (use that in simp)
    have "shows_prefix (put (put out [a]) [b]) ((xs @ [a]) @ [b])"
      by (rule shows_prefix_put [OF storage_ok_put [OF ok] 1]) (use that in simp)
    then show ?thesis using ok ext by (simp add: shows_prefix_terminate)
  qed
  show ?thesis
  proof (cases c)
    case (Call_prt_char ch)
    then show ?thesis using step [of "[ch]"] nw ext by (simp add: id)
  next
    case (Call_prt_chars ch n)
    then show ?thesis using step [of "replicate (unat n) ch"] nw ext by (simp add: id)
  next
    case (Call_prt_bytes b n)
    then show ?thesis using step [of "take (unat n) b"] nw ext by (simp add: id)
  next
    case (Call_prt_str str)
    have "strlen str < 2 ^ 32" using nw Call_prt_str by (simp add: strlen_def)
    then have "unat (of_nat (strlen str) :: u32) = strlen str" by (rule unat_of_nat_u32)
    moreover have "take (strlen str) str = takeWhile (\<lambda>c. c \<noteq> NUL) str"
      unfolding strlen_def by (rule takeWhile_eq_take [symmetric])
    ultimately show ?thesis
      using Call_prt_str step [of "takeWhile (\<lambda>c. c \<noteq> NUL) str"] nw ext by (simp add: id)
  next
    case (Call_prt_hex_byte byte)
    then show ?thesis using step2 [of "hex_asc_hi byte" "hex_asc_lo byte"] nw ext
      by (simp add: id)
  next
    case (Call_prt_hex_byte_upper byte)
    then show ?thesis using step2 [of "hex_asc_upper_hi byte" "hex_asc_upper_lo byte"] nw ext
      by (simp add: id)
  qed (use pw in simp_all)
qed

lemma run_shows:
  assumes "storage_ok out" and "\<not> heap_allocated out" and "make_room_extern_noop mr"
    and "shows_prefix out xs"
    and "\<forall>c\<in>set cs. public_write c \<and> valid_call c"
    and "length xs + length (requested_all cs) < 2 ^ 32"
  shows "\<exists>out'. run mr cs out = Inr out' \<and> size_f out' = size_f out \<and>
           shows_prefix out' (xs @ requested_all cs)"
  using assms
proof (induction cs arbitrary: out xs)
  case Nil
  then show ?case by (simp add: requested_all_def)
next
  case (Cons c cs)
  let ?o = "effect mr c out"
  have c: "public_write c" "valid_call c" using Cons.prems(5) by simp_all
  have nw: "length xs + length (requested c) < 2 ^ 32"
    using Cons.prems(6) by (simp add: requested_all_def)
  have e: "exec mr c out = Inr ?o"
    using Cons.prems(1,2,3) c(2) by (rule exec_effect_extern)
  from public_write_shows [OF Cons.prems(1,2,3,4) c nw]
  have o: "storage_ok ?o" "\<not> heap_allocated ?o" "size_f ?o = size_f out"
    "shows_prefix ?o (xs @ requested c)" by simp_all
  have "\<exists>out'. run mr cs ?o = Inr out' \<and> size_f out' = size_f ?o \<and>
           shows_prefix out' ((xs @ requested c) @ requested_all cs)"
  proof (rule Cons.IH [OF o(1,2) Cons.prems(3) o(4)])
    show "\<forall>c\<in>set cs. public_write c \<and> valid_call c" using Cons.prems(5) by simp
    show "length (xs @ requested c) + length (requested_all cs) < 2 ^ 32"
      using Cons.prems(6) by (simp add: requested_all_def)
  qed
  then show ?case using e o(3) by (simp add: requested_all_def)
qed

section \<open>Two runs side by side\<close>

lemma same_core_accessors:
  assumes "same_core p q"
  shows "printbuf_remaining p = printbuf_remaining q"
    and "observe p = observe q"
  using assms
  by (simp_all add: same_core_def observe_def printbuf_remaining_def printbuf_remaining_size_def
        printbuf_written_def printbuf_overflowed_def)

text \<open>
  In the lemmas of this section \<open>R\<close> relates two states that are run side by side: it
  implies \<open>same_core\<close>, and it survives the same store and the same move of the cursor on
  both sides.
\<close>

lemma store_related:
  assumes Rc: "\<And>p q. R p q \<Longrightarrow> same_core p q"
    and Rb: "\<And>p q b. R p q \<Longrightarrow> R (p\<lparr>buf := b\<rparr>) (q\<lparr>buf := b\<rparr>)"
    and r: "R p q"
  shows "rel_sum (=) R (store p (pos p) c) (store q (pos q) c)"
    and "rel_sum (=) R (store p (size_f p - 1) c) (store q (size_f q - 1) c)"
  using Rc [OF r] Rb [OF r] by (simp_all add: same_core_def store_def)

lemma and_then_related:
  assumes "rel_sum (=) R r r'"
    and "\<And>x y. R x y \<Longrightarrow> rel_sum (=) R (f x) (g y)"
  shows "rel_sum (=) R (and_then r f) (and_then r' g)"
  using assms by (cases r; cases r') simp_all

lemma bytes_loop_related:
  assumes Rc: "\<And>p q. R p q \<Longrightarrow> same_core p q"
    and Rb: "\<And>p q b. R p q \<Longrightarrow> R (p\<lparr>buf := b\<rparr>) (q\<lparr>buf := b\<rparr>)"
    and Rp: "\<And>p q k. R p q \<Longrightarrow> R (p\<lparr>pos := pos p + k\<rparr>) (q\<lparr>pos := pos q + k\<rparr>)"
  shows "R p q \<Longrightarrow> rel_sum (=) R (bytes_loop p b i n) (bytes_loop q b i n)"
proof (induction p b i n arbitrary: q rule: bytes_loop.induct)
  case (1 out b i can_print)
  show ?case
  proof (cases "i < can_print \<and> unat i < length b")
    case False
    then show ?thesis using "1.prems"
      by (subst bytes_loop.simps, subst (2) bytes_loop.simps) auto
  next
    case True
    have st: "rel_sum (=) R (store out (pos out) (b ! unat i)) (store q (pos q) (b ! unat i))"
      using Rc Rb "1.prems" by (rule store_related(1))
    show ?thesis
    proof (cases "store out (pos out) (b ! unat i)")
      case (Inl e)
      then have "store q (pos q) (b ! unat i) = Inl e" using st
        by (cases "store q (pos q) (b ! unat i)") simp_all
      then show ?thesis using Inl True
        by (subst bytes_loop.simps, subst (2) bytes_loop.simps) simp
    next
      case (Inr out')
      then obtain q' where q': "store q (pos q) (b ! unat i) = Inr q'" "R out' q'"
        using st by (cases "store q (pos q) (b ! unat i)") simp_all
      have "R (out'\<lparr>pos := pos out' + 1\<rparr>) (q'\<lparr>pos := pos q' + 1\<rparr>)"
        using q'(2) by (rule Rp)
      from "1.IH" [OF _ _ Inr this] True
      have "rel_sum (=) R
              (bytes_loop (out'\<lparr>pos := pos out' + 1\<rparr>) b (i + 1) can_print)
              (bytes_loop (q'\<lparr>pos := pos q' + 1\<rparr>) b (i + 1) can_print)"
        by simp
      then show ?thesis using Inr q'(1) True
        by (subst bytes_loop.simps, subst (2) bytes_loop.simps) simp
    qed
  qed
qed

lemma uu_prt_char_reserved_related:
  assumes Rc: "\<And>p q. R p q \<Longrightarrow> same_core p q"
    and Rb: "\<And>p q b. R p q \<Longrightarrow> R (p\<lparr>buf := b\<rparr>) (q\<lparr>buf := b\<rparr>)"
    and Rp: "\<And>p q k. R p q \<Longrightarrow> R (p\<lparr>pos := pos p + k\<rparr>) (q\<lparr>pos := pos q + k\<rparr>)"
    and r: "R p q"
  shows "rel_sum (=) R (uu_prt_char_reserved p c) (uu_prt_char_reserved q c)"
  unfolding uu_prt_char_reserved_def
proof (rule and_then_related)
  show "rel_sum (=) R
      (if printbuf_remaining p \<noteq> 0 then store p (pos p) c else Inr p)
      (if printbuf_remaining q \<noteq> 0 then store q (pos q) c else Inr q)"
    using r store_related(1) [of R, OF Rc Rb r, of c]
    by (simp add: same_core_accessors(1) [OF Rc [OF r]])
next
  fix x y assume "R x y"
  then show "rel_sum (=) R (Inr (x\<lparr>pos := pos x + 1\<rparr>)) (Inr (y\<lparr>pos := pos y + 1\<rparr>))"
    by (simp add: Rp)
qed

lemma uu_prt_chars_reserved_related:
  assumes Rc: "\<And>p q. R p q \<Longrightarrow> same_core p q"
    and Rb: "\<And>p q b. R p q \<Longrightarrow> R (p\<lparr>buf := b\<rparr>) (q\<lparr>buf := b\<rparr>)"
    and Rp: "\<And>p q k. R p q \<Longrightarrow> R (p\<lparr>pos := pos p + k\<rparr>) (q\<lparr>pos := pos q + k\<rparr>)"
    and r: "R p q"
  shows "rel_sum (=) R (uu_prt_chars_reserved p c n) (uu_prt_chars_reserved q c n)"
proof -
  let ?cp = "min n (printbuf_remaining q)"
  have "rel_sum (=) R (bytes_loop p (replicate (unat ?cp) c) 0 ?cp)
                      (bytes_loop q (replicate (unat ?cp) c) 0 ?cp)"
    using Rc Rb Rp r by (rule bytes_loop_related)
  then have "rel_sum (=) R (chars_loop p c 0 ?cp) (chars_loop q c 0 ?cp)"
    by (simp add: chars_loop_as_bytes_loop [of ?cp "unat ?cp"])
  then show ?thesis
    unfolding uu_prt_chars_reserved_def Let_def same_core_accessors(1) [OF Rc [OF r]]
    by (rule and_then_related) (simp add: Rp)
qed

lemma printbuf_nul_terminate_related:
  assumes Rc: "\<And>p q. R p q \<Longrightarrow> same_core p q"
    and Rb: "\<And>p q b. R p q \<Longrightarrow> R (p\<lparr>buf := b\<rparr>) (q\<lparr>buf := b\<rparr>)"
    and Rm: "\<And>p q k. R p q \<Longrightarrow> R (mr p k) (mr q k)"
    and r: "R p q"
  shows "rel_sum (=) R (printbuf_nul_terminate mr p) (printbuf_nul_terminate mr q)"
proof -
  have m: "R (mr p 1) (mr q 1)" using r by (rule Rm)
  then have "same_core (mr p 1) (mr q 1)" by (rule Rc)
  then have e: "pos (mr p 1) = pos (mr q 1)" "size_f (mr p 1) = size_f (mr q 1)"
    by (simp_all add: same_core_def)
  show ?thesis
    using m store_related [of R, OF Rc Rb m, of NUL]
    unfolding printbuf_nul_terminate_def Let_def by (simp add: e)
qed

lemma prt_bytes_related:
  assumes Rc: "\<And>p q. R p q \<Longrightarrow> same_core p q"
    and Rb: "\<And>p q b. R p q \<Longrightarrow> R (p\<lparr>buf := b\<rparr>) (q\<lparr>buf := b\<rparr>)"
    and Rp: "\<And>p q k. R p q \<Longrightarrow> R (p\<lparr>pos := pos p + k\<rparr>) (q\<lparr>pos := pos q + k\<rparr>)"
    and Rm: "\<And>p q k. R p q \<Longrightarrow> R (mr p k) (mr q k)"
    and r: "R p q"
  shows "rel_sum (=) R (prt_bytes mr p b n) (prt_bytes mr q b n)"
proof -
  have m: "R (mr p n) (mr q n)" using r by (rule Rm)
  have e: "printbuf_remaining (mr p n) = printbuf_remaining (mr q n)"
    using Rc [OF m] by (rule same_core_accessors(1))
  show ?thesis
    unfolding prt_bytes_def Let_def e
  proof (rule and_then_related)
    show "rel_sum (=) R
        (bytes_loop (mr p n) b 0 (min n (printbuf_remaining (mr q n))))
        (bytes_loop (mr q n) b 0 (min n (printbuf_remaining (mr q n))))"
      using Rc Rb Rp m by (rule bytes_loop_related)
  next
    fix x y assume "R x y"
    then have "R (x\<lparr>pos := pos x + (n - min n (printbuf_remaining (mr q n)))\<rparr>)
                 (y\<lparr>pos := pos y + (n - min n (printbuf_remaining (mr q n)))\<rparr>)"
      by (rule Rp)
    with Rc Rb Rm show "rel_sum (=) R
        (printbuf_nul_terminate mr (x\<lparr>pos := pos x + (n - min n (printbuf_remaining (mr q n)))\<rparr>))
        (printbuf_nul_terminate mr (y\<lparr>pos := pos y + (n - min n (printbuf_remaining (mr q n)))\<rparr>))"
      by (rule printbuf_nul_terminate_related)
  qed
qed

lemma exec_related:
  assumes Rc: "\<And>p q. R p q \<Longrightarrow> same_core p q"
    and Rb: "\<And>p q b. R p q \<Longrightarrow> R (p\<lparr>buf := b\<rparr>) (q\<lparr>buf := b\<rparr>)"
    and Rp: "\<And>p q k. R p q \<Longrightarrow> R (p\<lparr>pos := pos p + k\<rparr>) (q\<lparr>pos := pos q + k\<rparr>)"
    and Rm: "\<And>p q k. R p q \<Longrightarrow> R (mr p k) (mr q k)"
    and Rr: "\<And>p q. R p q \<Longrightarrow> R (printbuf_reset p) (printbuf_reset q)"
    and Ra: "\<And>p q. R p q \<Longrightarrow> R (printbuf_atomic_inc p) (printbuf_atomic_inc q)"
    and Rd: "\<And>p q. R p q \<Longrightarrow> R (printbuf_atomic_dec p) (printbuf_atomic_dec q)"
    and r: "R p q"
  shows "rel_sum (=) R (exec mr c p) (exec mr c q)"
proof -
  have c1: "rel_sum (=) R (uu_prt_char_reserved x ch) (uu_prt_char_reserved y ch)"
    if "R x y" for x y ch using Rc Rb Rp that by (rule uu_prt_char_reserved_related)
  have cn: "rel_sum (=) R (uu_prt_chars_reserved x ch n) (uu_prt_chars_reserved y ch n)"
    if "R x y" for x y ch n using Rc Rb Rp that by (rule uu_prt_chars_reserved_related)
  have nt: "rel_sum (=) R (printbuf_nul_terminate mr x) (printbuf_nul_terminate mr y)"
    if "R x y" for x y using Rc Rb Rm that by (rule printbuf_nul_terminate_related)
  have pb: "rel_sum (=) R (prt_bytes mr x b n) (prt_bytes mr y b n)"
    if "R x y" for x y b n using Rc Rb Rp Rm that by (rule prt_bytes_related)
  show ?thesis
  proof (cases c)
    case (Call_uu_prt_char_reserved ch)
    then show ?thesis using r by (simp add: c1)
  next
    case (Call_uu_prt_char ch)
    then show ?thesis using r by (simp add: uu_prt_char_def c1 Rm)
  next
    case (Call_prt_char ch)
    then show ?thesis using r
      by (simp add: prt_char_def uu_prt_char_def and_then_related c1 nt Rm)
  next
    case (Call_uu_prt_chars_reserved ch n)
    then show ?thesis using r by (simp add: cn)
  next
    case (Call_prt_chars ch n)
    then show ?thesis using r by (simp add: prt_chars_def and_then_related cn nt Rm)
  next
    case (Call_prt_bytes b n)
    then show ?thesis using r by (simp add: pb)
  next
    case (Call_prt_str str)
    then show ?thesis using r by (simp add: prt_str_def pb)
  next
    case (Call_prt_hex_byte byte)
    then show ?thesis using r
      by (simp add: prt_hex_byte_def and_then_related c1 nt Rm)
  next
    case (Call_prt_hex_byte_upper byte)
    then show ?thesis using r
      by (simp add: prt_hex_byte_upper_def and_then_related c1 nt Rm)
  next
    case Call_printbuf_nul_terminate
    then show ?thesis using r by (simp add: nt)
  next
    case Call_printbuf_reset
    then show ?thesis using r by (simp add: Rr)
  next
    case Call_printbuf_atomic_inc
    then show ?thesis using r by (simp add: Ra)
  next
    case Call_printbuf_atomic_dec
    then show ?thesis using r by (simp add: Rd)
  qed
qed

lemma run_related:
  assumes Rc: "\<And>p q. R p q \<Longrightarrow> same_core p q"
    and Rb: "\<And>p q b. R p q \<Longrightarrow> R (p\<lparr>buf := b\<rparr>) (q\<lparr>buf := b\<rparr>)"
    and Rp: "\<And>p q k. R p q \<Longrightarrow> R (p\<lparr>pos := pos p + k\<rparr>) (q\<lparr>pos := pos q + k\<rparr>)"
    and Rm: "\<And>p q k. R p q \<Longrightarrow> R (mr p k) (mr q k)"
    and Rr: "\<And>p q. R p q \<Longrightarrow> R (printbuf_reset p) (printbuf_reset q)"
    and Ra: "\<And>p q. R p q \<Longrightarrow> R (printbuf_atomic_inc p) (printbuf_atomic_inc q)"
    and Rd: "\<And>p q. R p q \<Longrightarrow> R (printbuf_atomic_dec p) (printbuf_atomic_dec q)"
  shows "R p q \<Longrightarrow> map_sum id observe (run mr cs p) = map_sum id observe (run mr cs q)"
proof -
  have "rel_sum (=) R (run mr cs p) (run mr cs q)" if "R p q" for p q
    using that
  proof (induction cs arbitrary: p q)
    case Nil
    then show ?case by simp
  next
    case (Cons c cs)
    have "rel_sum (=) R (exec mr c p) (exec mr c q)"
      using Rc Rb Rp Rm Rr Ra Rd Cons.prems by (rule exec_related)
    then show ?case unfolding run.simps by (rule and_then_related) (rule Cons.IH)
  qed
  moreover assume "R p q"
  ultimately have "rel_sum (=) R (run mr cs p) (run mr cs q)" .
  then show ?thesis
    by (cases "run mr cs p"; cases "run mr cs q")
       (simp_all add: same_core_accessors(2) [OF Rc])
qed

lemma run_uniform:
  assumes "make_room_uniform mr" and "same_for_make_room p q"
  shows "map_sum id observe (run mr cs p) = map_sum id observe (run mr cs q)"
proof (rule run_related [where R = same_for_make_room])
  show "same_for_make_room (mr x k) (mr y k)" if "same_for_make_room x y" for x y k
    using assms(1) that by (simp add: make_room_uniform_def)
qed (use assms(2) in \<open>simp_all add: same_for_make_room_def same_core_def printbuf_reset_def
       printbuf_atomic_inc_def printbuf_atomic_dec_def\<close>)

lemma run_extern:
  assumes "make_room_extern_noop mr" and "same_core p q" and "\<not> heap_allocated p"
  shows "map_sum id observe (run mr cs p) = map_sum id observe (run mr cs q)"
proof (rule run_related [where R = "\<lambda>x y. same_core x y \<and> \<not> heap_allocated x"])
  show "same_core (mr x k) (mr y k) \<and> \<not> heap_allocated (mr x k)"
    if "same_core x y \<and> \<not> heap_allocated x" for x y k
  proof -
    from that have "\<not> heap_allocated y" by (auto simp: same_core_def)
    then show ?thesis using assms(1) that by (simp add: make_room_extern_noop_def)
  qed
qed (use assms(2,3) in \<open>auto simp: same_core_def printbuf_reset_def
       printbuf_atomic_inc_def printbuf_atomic_dec_def\<close>)

section \<open>The formatter on sample values\<close>

lemma human_readable_values:
  "human_readable PRINTBUF_UNITS_2 1536 = ''1.5K''"
  "human_readable PRINTBUF_UNITS_10 1500000 = ''1.5M''"
  "human_readable PRINTBUF_UNITS_2 0 = ''0''"
  "human_readable PRINTBUF_UNITS_10 0 = ''0''"
  "human_readable PRINTBUF_UNITS_2 2048 = ''2.0K''"
  "human_readable PRINTBUF_UNITS_2 2047 = ''1.9K''"
  by (simp_all add: human_readable_def unit_base_def magnitude_step.simps decimal.simps)


lemma public_extern:
  assumes "storage_ok out" and "\<not> heap_allocated out"
  shows "prt_str (printbuf_make_room chunk alloc) out str =
           Inr (terminate (put out (take (unat (of_nat (strlen str) :: u32)) str)))"
    and "prt_char (printbuf_make_room chunk alloc) out c = Inr (terminate (put out [c]))"
  using exec_effect_extern [OF assms printbuf_make_room_extern_noop, of "Call_prt_str str" chunk alloc]
    exec_effect_extern [OF assms printbuf_make_room_extern_noop, of "Call_prt_char c" chunk alloc]
    assms(2)
  by (simp_all add: printbuf_make_room_def)

lemma hr_1536:
  "map_sum id written_bytes
     (prt_human_readable_u64 (printbuf_make_room chunk alloc)
        (PRINTBUF_EXTERN ''................'' 16
           \<lparr>si_units := PRINTBUF_UNITS_2, human_readable_units := True\<rparr>) 1536) = Inr ''1.5K''"
  apply (simp add: prt_human_readable_u64_def PRINTBUF_EXTERN_def human_readable_values
       public_extern storage_ok_def)
  apply (simp add: put_def terminate_def written_bytes_def
        printbuf_written_def printbuf_remaining_def strlen_def NUL_def)
  done

lemma hr_1500000:
  "map_sum id written_bytes
     (prt_human_readable_u64 (printbuf_make_room chunk alloc)
        (PRINTBUF_EXTERN ''................'' 16
           \<lparr>si_units := PRINTBUF_UNITS_10, human_readable_units := True\<rparr>) 1500000) = Inr ''1.5M''"
  apply (simp add: prt_human_readable_u64_def PRINTBUF_EXTERN_def human_readable_values
       public_extern storage_ok_def)
  apply (simp add: put_def terminate_def written_bytes_def
        printbuf_written_def printbuf_remaining_def strlen_def NUL_def)
  done

lemma hr_0:
  "map_sum id written_bytes
     (prt_human_readable_u64 (printbuf_make_room chunk alloc)
        (PRINTBUF_EXTERN ''................'' 16
           \<lparr>si_units := PRINTBUF_UNITS_2, human_readable_units := True\<rparr>) 0) = Inr ''0''"
  "map_sum id written_bytes
     (prt_human_readable_u64 (printbuf_make_room chunk alloc)
        (PRINTBUF_EXTERN ''................'' 16
           \<lparr>si_units := PRINTBUF_UNITS_10, human_readable_units := True\<rparr>) 0) = Inr ''0''"
   apply (simp_all add: prt_human_readable_u64_def PRINTBUF_EXTERN_def human_readable_values
       public_extern storage_ok_def)
   apply (simp_all add: put_def terminate_def written_bytes_def
        printbuf_written_def printbuf_remaining_def strlen_def NUL_def)
  done

lemma hr_minus_2048:
  "map_sum id written_bytes
     (prt_human_readable_s64 (printbuf_make_room chunk alloc)
        (PRINTBUF_EXTERN ''................'' 16
           \<lparr>si_units := PRINTBUF_UNITS_2, human_readable_units := True\<rparr>) (- 2048)) = Inr ''-2.0K''"
  apply (simp add: prt_human_readable_u64_def prt_human_readable_s64_def PRINTBUF_EXTERN_def
       public_extern storage_ok_def)
  apply (simp add: put_def terminate_def printbuf_remaining_def human_readable_values
       public_extern storage_ok_def)
  apply (simp add: put_def terminate_def written_bytes_def
        printbuf_written_def printbuf_remaining_def strlen_def NUL_def)
  done

lemma hr_2047:
  "map_sum id written_bytes
     (prt_human_readable_u64 (printbuf_make_room chunk alloc)
        (PRINTBUF_EXTERN ''................'' 16
           \<lparr>si_units := PRINTBUF_UNITS_2, human_readable_units := True\<rparr>) 2047) = Inr ''1.9K''"
  apply (simp add: prt_human_readable_u64_def PRINTBUF_EXTERN_def human_readable_values
       public_extern storage_ok_def)
  apply (simp add: put_def terminate_def written_bytes_def
        printbuf_written_def printbuf_remaining_def strlen_def NUL_def)
  done

section \<open>Sample runs\<close>

lemma aliased_source_run:
  "prt_str (printbuf_make_room 16 alloc_ok) (PRINTBUF_EXTERN ''........'' 8) ''ab'' =
     Inr (PRINTBUF_EXTERN [CHR ''a'', CHR ''b'', NUL, CHR ''.'', CHR ''.'', CHR ''.'', CHR ''.'',
            CHR ''.''] 8 \<lparr>pos := 2\<rparr>)"
  "prt_bytes_from_buf (printbuf_make_room 16 alloc_ok)
     (PRINTBUF_EXTERN [CHR ''a'', CHR ''b'', NUL, CHR ''.'', CHR ''.'', CHR ''.'', CHR ''.'',
            CHR ''.''] 8 \<lparr>pos := 2\<rparr>) 0 4 =
     Inr (PRINTBUF_EXTERN [CHR ''a'', CHR ''b'', CHR ''a'', CHR ''b'', CHR ''a'', CHR ''b'', NUL,
            CHR ''.''] 8 \<lparr>pos := 6\<rparr>)"
proof -
  let ?mr = "printbuf_make_room 16 alloc_ok"
  let ?p0 = "PRINTBUF_EXTERN ''........'' 8"
  have e: "exec ?mr (Call_prt_str ''ab'') ?p0 = Inr (effect ?mr (Call_prt_str ''ab'') ?p0)"
    by (rule exec_effect_extern)
       (simp_all add: storage_ok_def PRINTBUF_EXTERN_def printbuf_make_room_extern_noop)
  show "prt_str ?mr ?p0 ''ab'' =
     Inr (PRINTBUF_EXTERN [CHR ''a'', CHR ''b'', NUL, CHR ''.'', CHR ''.'', CHR ''.'', CHR ''.'',
            CHR ''.''] 8 \<lparr>pos := 2\<rparr>)"
    using e
    by (simp add: printbuf_make_room_def PRINTBUF_EXTERN_def put_def terminate_def
          printbuf_remaining_def strlen_def NUL_def)
  show "prt_bytes_from_buf ?mr
     (PRINTBUF_EXTERN [CHR ''a'', CHR ''b'', NUL, CHR ''.'', CHR ''.'', CHR ''.'', CHR ''.'',
            CHR ''.''] 8 \<lparr>pos := 2\<rparr>) 0 4 =
     Inr (PRINTBUF_EXTERN [CHR ''a'', CHR ''b'', CHR ''a'', CHR ''b'', CHR ''a'', CHR ''b'', NUL,
            CHR ''.''] 8 \<lparr>pos := 6\<rparr>)"
    by (simp add: prt_bytes_from_buf_def printbuf_make_room_def PRINTBUF_EXTERN_def
          printbuf_remaining_def from_buf_loop.simps store_def printbuf_nul_terminate_def
          NUL_def)
qed

lemma stale_unit_mode_run:
  "map_sum id written_bytes
     (prt_human_readable_u64 (printbuf_make_room 16 alloc_ok)
        (printbuf_reset (PRINTBUF_EXTERN ''................'' 16 \<lparr>si_units := PRINTBUF_UNITS_10\<rparr>))
        1500000) = Inr ''1.5M''"
  "map_sum id written_bytes
     (prt_human_readable_u64 (printbuf_make_room 16 alloc_ok)
        (PRINTBUF_EXTERN ''................'' 16) 1500000) = Inr ''1.4M''"
proof -
  have h: "human_readable PRINTBUF_UNITS_2 1500000 = ''1.4M''"
    by (simp add: human_readable_def unit_base_def magnitude_step.simps decimal.simps)
  show "map_sum id written_bytes
     (prt_human_readable_u64 (printbuf_make_room 16 alloc_ok)
        (printbuf_reset (PRINTBUF_EXTERN ''................'' 16 \<lparr>si_units := PRINTBUF_UNITS_10\<rparr>))
        1500000) = Inr ''1.5M''"
    apply (simp add: prt_human_readable_u64_def PRINTBUF_EXTERN_def human_readable_values
       public_extern storage_ok_def printbuf_reset_def)
    apply (simp add: put_def terminate_def written_bytes_def
        printbuf_written_def printbuf_remaining_def strlen_def NUL_def)
    done
  show "map_sum id written_bytes
     (prt_human_readable_u64 (printbuf_make_room 16 alloc_ok)
        (PRINTBUF_EXTERN ''................'' 16) 1500000) = Inr ''1.4M''"
    apply (simp add: prt_human_readable_u64_def PRINTBUF_EXTERN_def h
       public_extern storage_ok_def)
    apply (simp add: put_def terminate_def written_bytes_def
        printbuf_written_def printbuf_remaining_def strlen_def NUL_def)
    done
qed

lemma double_until_enough: "need \<le> c \<Longrightarrow> double_until c need = c"
  by (simp add: double_until.simps)

lemma make_room_refused:
  "printbuf_make_room 16 alloc_blocking_only (printbuf_reset (PRINTBUF \<lparr>atomic := 1\<rparr>)) 1 =
     printbuf_reset (PRINTBUF \<lparr>atomic := 1\<rparr>) \<lparr>allocation_failure := True\<rparr>"
  by (simp add: printbuf_make_room_def PRINTBUF_def printbuf_reset_def double_until_enough
        alloc_blocking_only_def)

lemma make_room_refused_again:
  "printbuf_make_room 16 alloc_blocking_only
     (put (printbuf_reset (PRINTBUF \<lparr>atomic := 1\<rparr>) \<lparr>allocation_failure := True\<rparr>) [c]) 1 =
     put (printbuf_reset (PRINTBUF \<lparr>atomic := 1\<rparr>) \<lparr>allocation_failure := True\<rparr>) [c]"
  by (simp add: printbuf_make_room_def PRINTBUF_def printbuf_reset_def double_until_enough
        alloc_blocking_only_def put_def)

lemma make_room_grown:
  "printbuf_make_room 16 alloc_blocking_only PRINTBUF 1 =
     PRINTBUF \<lparr>buf := replicate 16 CHR ''#'', size_f := 16\<rparr>"
  by (simp add: printbuf_make_room_def PRINTBUF_def double_until_enough
        alloc_blocking_only_def map_replicate_const)

lemma make_room_grown_enough:
  "printbuf_make_room 16 alloc_blocking_only
     (put (PRINTBUF \<lparr>buf := replicate 16 CHR ''#'', size_f := 16\<rparr>) [c]) 1 =
     put (PRINTBUF \<lparr>buf := replicate 16 CHR ''#'', size_f := 16\<rparr>) [c]"
  by (simp add: printbuf_make_room_def PRINTBUF_def put_def)


lemma atomic_allocation_run:
  "map_sum id written_bytes
     (prt_char (printbuf_make_room 16 alloc_blocking_only)
        (printbuf_reset (PRINTBUF \<lparr>atomic := 1\<rparr>)) CHR ''a'') = Inr []"
  "map_sum id allocation_failure
     (prt_char (printbuf_make_room 16 alloc_blocking_only)
        (printbuf_reset (PRINTBUF \<lparr>atomic := 1\<rparr>)) CHR ''a'') = Inr True"
  "map_sum id written_bytes
     (prt_char (printbuf_make_room 16 alloc_blocking_only) PRINTBUF CHR ''a'') = Inr ''a''"
  "map_sum id allocation_failure
     (prt_char (printbuf_make_room 16 alloc_blocking_only) PRINTBUF CHR ''a'') = Inr False"
proof -
  let ?mr = "printbuf_make_room 16 alloc_blocking_only"
  let ?p = "printbuf_reset (PRINTBUF \<lparr>atomic := 1\<rparr>)"
  note ks = printbuf_make_room_keeps_storage [of 16 alloc_blocking_only]
  have ok1: "storage_ok ?p" and ok2: "storage_ok PRINTBUF"
    by (simp_all add: storage_ok_def PRINTBUF_def printbuf_reset_def)
  have "exec ?mr (Call_prt_char CHR ''a'') ?p = Inr (effect ?mr (Call_prt_char CHR ''a'') ?p)"
    using ok1 ks by (rule exec_effect) simp
  then have e1: "prt_char ?mr ?p CHR ''a'' =
      Inr (terminate (put (?p \<lparr>allocation_failure := True\<rparr>) ''a''))"
    by (simp add: make_room_refused make_room_refused_again)
  have "exec ?mr (Call_prt_char CHR ''a'') PRINTBUF =
      Inr (effect ?mr (Call_prt_char CHR ''a'') PRINTBUF)"
    using ok2 ks by (rule exec_effect) simp
  then have e2: "prt_char ?mr PRINTBUF CHR ''a'' =
      Inr (terminate (put (PRINTBUF \<lparr>buf := replicate 16 CHR ''#'', size_f := 16\<rparr>) ''a''))"
    by (simp add: make_room_grown make_room_grown_enough)
  show "map_sum id written_bytes (prt_char ?mr ?p CHR ''a'') = Inr []"
    unfolding e1
    by (simp add: PRINTBUF_def printbuf_reset_def put_def terminate_def written_bytes_def
          printbuf_written_def printbuf_remaining_def)
  show "map_sum id allocation_failure (prt_char ?mr ?p CHR ''a'') = Inr True"
    unfolding e1
    by (simp add: PRINTBUF_def printbuf_reset_def put_def terminate_def)
  show "map_sum id written_bytes (prt_char ?mr PRINTBUF CHR ''a'') = Inr ''a''"
    unfolding e2
    by (simp add: PRINTBUF_def put_def terminate_def written_bytes_def
          printbuf_written_def printbuf_remaining_def NUL_def)
  show "map_sum id allocation_failure (prt_char ?mr PRINTBUF CHR ''a'') = Inr False"
    unfolding e2
    by (simp add: PRINTBUF_def put_def terminate_def)
qed

section \<open>The truncation law\<close>

text \<open>
  Claim C1, as stated: for every externally-owned printbuf with capacity cap > 0, after
  any sequence of public write primitives with total requested length L, pos equals L,
  \<^verbatim>\<open>printbuf_written\<close> returns min(L, cap - 1), and the stored bytes
  data[0 .. min(L, cap - 1)) are the first bytes of the requested sequence. It fails in
  two ways.

  It fails when L does not fit the 32-bit cursor. On a fresh external buffer of 4 bytes,
  \<^verbatim>\<open>prt_chars(out, 'a', 0xFFFFFFFF)\<close> followed by \<^verbatim>\<open>prt_char(out, 'b')\<close> requests
  L = 2^32 bytes and leaves pos = 0, \<^verbatim>\<open>printbuf_written\<close> = 0 and a NUL in data[0].

  It fails when a source array lies inside the storage of the buffer. On a fresh external
  buffer of 8 bytes, \<^verbatim>\<open>prt_str(out, "ab")\<close> leaves the storage "ab\0....."; then
  \<^verbatim>\<open>prt_bytes(out, out->buf, 4)\<close> requests the four bytes 'a', 'b', NUL, '.' that the
  array holds at the call, so the requested sequence of L = 6 bytes is "abab\0."; the
  loop reads the bytes that its own earlier rounds stored, and the storage holds "ababab"
  in data[0 .. 6).
\<close>

theorem snprintf_truncation_law_counterexample:
  "run (printbuf_make_room 16 alloc_ok)
     [Call_prt_chars CHR ''a'' 0xFFFFFFFF, Call_prt_char CHR ''b''] (PRINTBUF_EXTERN ''....'' 4) =
     Inr (PRINTBUF_EXTERN [NUL, CHR ''a'', CHR ''a'', NUL] 4) \<and>
   pos (PRINTBUF_EXTERN [NUL, CHR ''a'', CHR ''a'', NUL] 4) = 0 \<and>
   printbuf_written (PRINTBUF_EXTERN [NUL, CHR ''a'', CHR ''a'', NUL] 4) = 0 \<and>
   length (requested_all [Call_prt_chars CHR ''a'' 0xFFFFFFFF, Call_prt_char CHR ''b'']) =
     4294967296 \<and>
   prt_str (printbuf_make_room 16 alloc_ok) (PRINTBUF_EXTERN ''........'' 8) ''ab'' =
     Inr (PRINTBUF_EXTERN [CHR ''a'', CHR ''b'', NUL, CHR ''.'', CHR ''.'', CHR ''.'', CHR ''.'',
            CHR ''.''] 8 \<lparr>pos := 2\<rparr>) \<and>
   prt_bytes_from_buf (printbuf_make_room 16 alloc_ok)
     (PRINTBUF_EXTERN [CHR ''a'', CHR ''b'', NUL, CHR ''.'', CHR ''.'', CHR ''.'', CHR ''.'',
            CHR ''.''] 8 \<lparr>pos := 2\<rparr>) 0 4 =
     Inr (PRINTBUF_EXTERN [CHR ''a'', CHR ''b'', CHR ''a'', CHR ''b'', CHR ''a'', CHR ''b'', NUL,
            CHR ''.''] 8 \<lparr>pos := 6\<rparr>) \<and>
   take 6 (buf (PRINTBUF_EXTERN [CHR ''a'', CHR ''b'', CHR ''a'', CHR ''b'', CHR ''a'', CHR ''b'',
            NUL, CHR ''.''] 8 \<lparr>pos := 6\<rparr>)) = ''ababab'' \<and>
   take 6 (''ab'' @ take 4 (buf (PRINTBUF_EXTERN [CHR ''a'', CHR ''b'', NUL, CHR ''.'', CHR ''.'',
            CHR ''.'', CHR ''.'', CHR ''.''] 8 \<lparr>pos := 2\<rparr>))) =
     [CHR ''a'', CHR ''b'', CHR ''a'', CHR ''b'', NUL, CHR ''.'']"
proof -
  let ?mr = "printbuf_make_room 16 alloc_ok"
  let ?p0 = "PRINTBUF_EXTERN ''....'' 4"
  let ?p1 = "PRINTBUF_EXTERN [CHR ''a'', CHR ''a'', CHR ''a'', NUL] 4 \<lparr>pos := 0xFFFFFFFF\<rparr>"
  let ?p2 = "PRINTBUF_EXTERN [NUL, CHR ''a'', CHR ''a'', NUL] 4"
  have e1: "exec ?mr (Call_prt_chars CHR ''a'' 0xFFFFFFFF) ?p0 =
            Inr (effect ?mr (Call_prt_chars CHR ''a'' 0xFFFFFFFF) ?p0)"
    by (rule exec_effect_extern)
       (simp_all add: storage_ok_def PRINTBUF_EXTERN_def printbuf_make_room_extern_noop)
  have v1: "effect ?mr (Call_prt_chars CHR ''a'' 0xFFFFFFFF) ?p0 = ?p1"
    apply (simp add: printbuf_make_room_def PRINTBUF_EXTERN_def put_def terminate_def
          printbuf_remaining_def)
    apply (simp add: numeral_3_eq_3)
    done
  have e2: "exec ?mr (Call_prt_char CHR ''b'') ?p1 = Inr (effect ?mr (Call_prt_char CHR ''b'') ?p1)"
    by (rule exec_effect_extern)
       (simp_all add: storage_ok_def PRINTBUF_EXTERN_def printbuf_make_room_extern_noop)
  have v2: "effect ?mr (Call_prt_char CHR ''b'') ?p1 = ?p2"
    by (simp add: printbuf_make_room_def PRINTBUF_EXTERN_def put_def terminate_def
          printbuf_remaining_def)
  have "run ?mr [Call_prt_chars CHR ''a'' 0xFFFFFFFF, Call_prt_char CHR ''b''] ?p0 = Inr ?p2"
    by (simp only: run.simps e1 v1 e2 v2 and_then_Inr)
  then have wrap: "run ?mr [Call_prt_chars CHR ''a'' 0xFFFFFFFF, Call_prt_char CHR ''b''] ?p0 =
      Inr ?p2 \<and> pos ?p2 = 0 \<and> printbuf_written ?p2 = 0 \<and>
      length (requested_all [Call_prt_chars CHR ''a'' 0xFFFFFFFF, Call_prt_char CHR ''b'']) =
        4294967296"
    by (simp add: requested_all_def PRINTBUF_EXTERN_def printbuf_written_def)
  have content: "take 6 (buf (PRINTBUF_EXTERN [CHR ''a'', CHR ''b'', CHR ''a'', CHR ''b'',
        CHR ''a'', CHR ''b'', NUL, CHR ''.''] 8 \<lparr>pos := 6\<rparr>)) = ''ababab''"
    "take 6 (''ab'' @ take 4 (buf (PRINTBUF_EXTERN [CHR ''a'', CHR ''b'', NUL, CHR ''.'',
        CHR ''.'', CHR ''.'', CHR ''.'', CHR ''.''] 8 \<lparr>pos := 2\<rparr>))) =
     [CHR ''a'', CHR ''b'', CHR ''a'', CHR ''b'', NUL, CHR ''.'']"
    by (simp_all add: PRINTBUF_EXTERN_def)
  from wrap aliased_source_run content show ?thesis by (intro conjI) (elim conjE, assumption)+
qed

text \<open>
  Claim C1, amended: for every externally-owned printbuf with capacity cap > 0 and
  pos = 0 (as \<^verbatim>\<open>PRINTBUF_EXTERN\<close> makes it), after any sequence of public write
  primitives, the source arrays of \<^verbatim>\<open>prt_bytes\<close> and \<^verbatim>\<open>prt_str\<close> lying outside the
  storage of the buffer, with total requested length L < 2^32, pos equals L,
  \<^verbatim>\<open>printbuf_written\<close> returns min(L, cap - 1), and the stored bytes
  data[0 .. min(L, cap - 1)) equal the first min(L, cap - 1) bytes of the requested
  logical sequence. (A source array outside the storage is not changed by the stores of
  the call, which is why \<open>Call_prt_bytes\<close> and \<open>Call_prt_str\<close> carry it as a list of
  bytes. The storage has the cap bytes that the caller of \<^verbatim>\<open>PRINTBUF_EXTERN\<close> promises;
  \<^verbatim>\<open>printbuf_make_room\<close> does nothing on an external buffer; the array handed to
  \<^verbatim>\<open>prt_bytes\<close> has the \<open>n\<close> bytes that the call names.)
\<close>

theorem snprintf_truncation_law:
  assumes "make_room_extern_noop mr"
    and "storage_ok out" and "\<not> heap_allocated out" and "pos out = 0" and "size_f out \<noteq> 0"
    and "\<forall>c\<in>set cs. public_write c \<and> valid_call c"
    and "length (requested_all cs) < 2 ^ 32"
  shows "\<exists>out'. run mr cs out = Inr out' \<and>
           size_f out' = size_f out \<and>
           unat (pos out') = length (requested_all cs) \<and>
           unat (printbuf_written out') =
             min (length (requested_all cs)) (unat (size_f out) - 1) \<and>
           take (min (length (requested_all cs)) (unat (size_f out) - 1)) (buf out') =
             take (min (length (requested_all cs)) (unat (size_f out) - 1)) (requested_all cs)"
proof -
  have "shows_prefix out []" using assms(4) by (simp add: shows_prefix_def)
  from run_shows [OF assms(2,3,1) this assms(6)] assms(7)
  obtain out' where r: "run mr cs out = Inr out'" "size_f out' = size_f out"
    "shows_prefix out' (requested_all cs)" by auto
  then have "unat (pos out') = length (requested_all cs)"
    and "take (min (length (requested_all cs)) (unat (size_f out) - 1)) (buf out') =
         take (unat (size_f out) - 1) (requested_all cs)"
    by (simp_all add: shows_prefix_def)
  then show ?thesis using r(1,2) assms(5) by (simp add: unat_written take_min_length)
qed

theorem snprintf_truncation_law_witness:
  "make_room_extern_noop (printbuf_make_room 16 alloc_ok) \<and>
   storage_ok (PRINTBUF_EXTERN ''........'' 8) \<and>
   \<not> heap_allocated (PRINTBUF_EXTERN ''........'' 8) \<and>
   pos (PRINTBUF_EXTERN ''........'' 8) = 0 \<and>
   size_f (PRINTBUF_EXTERN ''........'' 8) \<noteq> 0 \<and>
   (\<exists>out'. run (printbuf_make_room 16 alloc_ok)
             [Call_prt_str ''hello'', Call_prt_char CHR '' '', Call_prt_bytes ''world!'' 5]
             (PRINTBUF_EXTERN ''........'' 8) = Inr out' \<and>
           size_f out' = 8 \<and>
           unat (pos out') = 11 \<and>
           unat (printbuf_written out') = 7 \<and>
           take 7 (buf out') = ''hello w'')"
proof -
  let ?cs = "[Call_prt_str ''hello'', Call_prt_char CHR '' '', Call_prt_bytes ''world!'' 5]"
  have ok: "storage_ok (PRINTBUF_EXTERN ''........'' 8)"
    and ext: "\<not> heap_allocated (PRINTBUF_EXTERN ''........'' 8)"
    and p0: "pos (PRINTBUF_EXTERN ''........'' 8) = 0"
    and nz: "size_f (PRINTBUF_EXTERN ''........'' 8) \<noteq> 0"
    by (simp_all add: storage_ok_def PRINTBUF_EXTERN_def)
  have r: "requested_all ?cs = ''hello world''"
    by (simp add: requested_all_def NUL_def)
  have v: "\<forall>c\<in>set ?cs. public_write c \<and> valid_call c" by simp
  have nw: "length (requested_all ?cs) < 2 ^ 32" unfolding r by simp
  note noop = printbuf_make_room_extern_noop [of 16 alloc_ok]
  have len: "length (requested_all ?cs) = 11" unfolding r by simp
  have m: "min (length (requested_all ?cs)) (unat (size_f (PRINTBUF_EXTERN ''........'' 8)) - 1) = 7"
    by (simp add: len PRINTBUF_EXTERN_def)
  from snprintf_truncation_law [OF noop ok ext p0 nz v nw]
  obtain out' where 1: "run (printbuf_make_room 16 alloc_ok) ?cs (PRINTBUF_EXTERN ''........'' 8) = Inr out'"
    and 2: "size_f out' = size_f (PRINTBUF_EXTERN ''........'' 8)"
    and 3: "unat (pos out') = length (requested_all ?cs)"
    and 4: "unat (printbuf_written out') =
            min (length (requested_all ?cs)) (unat (size_f (PRINTBUF_EXTERN ''........'' 8)) - 1)"
    and 5: "take (min (length (requested_all ?cs)) (unat (size_f (PRINTBUF_EXTERN ''........'' 8)) - 1))
              (buf out') =
            take (min (length (requested_all ?cs)) (unat (size_f (PRINTBUF_EXTERN ''........'' 8)) - 1))
              (requested_all ?cs)"
    by blast
  have "size_f out' = 8" using 2 by (simp add: PRINTBUF_EXTERN_def)
  moreover have "unat (pos out') = 11" using 3 len by simp
  moreover have "unat (printbuf_written out') = 7" using 4 m by simp
  moreover have "take 7 (buf out') = ''hello w''" using 5 [unfolded m] by (simp add: r)
  ultimately show ?thesis using 1 noop ok ext p0 nz by blast
qed

section \<open>printbuf_written\<close>

text \<open>
  Claim C2. For every printbuf, \<^verbatim>\<open>printbuf_written\<close> returns min(pos, size - 1) when
  size > 0 and 0 when size = 0. The minimum is the same whether it is taken on the
  32-bit values or on the numbers they stand for: size - 1 does not wrap when size > 0.
\<close>

theorem printbuf_written_spec:
  "(size_f out \<noteq> 0 \<longrightarrow>
      printbuf_written out = min (pos out) (size_f out - 1) \<and>
      unat (printbuf_written out) = min (unat (pos out)) (unat (size_f out) - 1)) \<and>
   (size_f out = 0 \<longrightarrow> printbuf_written out = 0)"
  by (auto simp: printbuf_written_def unat_min unat_minus_one)

theorem printbuf_written_spec_witness:
  "size_f (PRINTBUF_EXTERN ''abcdefgh'' 8 \<lparr>pos := 11\<rparr>) \<noteq> 0 \<and>
   printbuf_written (PRINTBUF_EXTERN ''abcdefgh'' 8 \<lparr>pos := 11\<rparr>) = 7 \<and>
   printbuf_written (PRINTBUF_EXTERN ''abcdefgh'' 8 \<lparr>pos := 3\<rparr>) = 3 \<and>
   size_f PRINTBUF = 0 \<and> printbuf_written PRINTBUF = 0"
  using printbuf_written_spec [of "PRINTBUF_EXTERN ''abcdefgh'' 8 \<lparr>pos := 11\<rparr>"]
        printbuf_written_spec [of "PRINTBUF_EXTERN ''abcdefgh'' 8 \<lparr>pos := 3\<rparr>"]
        printbuf_written_spec [of PRINTBUF]
  by (simp add: PRINTBUF_EXTERN_def PRINTBUF_def)

section \<open>printbuf_overflowed\<close>

text \<open>
  Claim C3, as stated: \<^verbatim>\<open>printbuf_overflowed\<close> is true if and only if pos > size, and
  equivalently if and only if \<^verbatim>\<open>printbuf_written(out) < pos\<close>. Both parts fail. With
  pos = size = 4 the predicate is true and pos > size is false. On a fresh heap buffer
  (pos = size = 0) the predicate is true and \<^verbatim>\<open>printbuf_written(out) < pos\<close> is false.
\<close>

theorem printbuf_overflowed_counterexample:
  "\<not> (printbuf_overflowed (PRINTBUF_EXTERN ''abcd'' 4 \<lparr>pos := 4\<rparr>) \<longleftrightarrow>
        size_f (PRINTBUF_EXTERN ''abcd'' 4 \<lparr>pos := 4\<rparr>)
          < pos (PRINTBUF_EXTERN ''abcd'' 4 \<lparr>pos := 4\<rparr>)) \<and>
   \<not> (printbuf_overflowed PRINTBUF \<longleftrightarrow> printbuf_written PRINTBUF < pos PRINTBUF)"
  by (simp add: printbuf_overflowed_def printbuf_written_def PRINTBUF_EXTERN_def PRINTBUF_def)

text \<open>
  Claim C3, amended: \<^verbatim>\<open>printbuf_overflowed\<close> is true if and only if pos \<ge> size; and,
  except when pos and size are both 0, it is true if and only if
  \<^verbatim>\<open>printbuf_written(out) < pos\<close>. A buffer of capacity 0 that has been written to
  (size = 0, pos > 0) is covered: it has overflowed, and \<^verbatim>\<open>printbuf_written\<close> is 0 < pos.
\<close>

theorem printbuf_overflowed_spec:
  "(printbuf_overflowed out \<longleftrightarrow> size_f out \<le> pos out) \<and>
   (size_f out \<noteq> 0 \<or> pos out \<noteq> 0 \<longrightarrow>
      (printbuf_overflowed out \<longleftrightarrow> printbuf_written out < pos out))"
  using unat_gt_0 [of "size_f out"] unat_gt_0 [of "pos out"]
  by (auto simp: printbuf_overflowed_def printbuf_written_def word_le_nat_alt
        word_less_nat_alt unat_min unat_minus_one)

theorem printbuf_overflowed_spec_witness:
  "size_f (PRINTBUF_EXTERN ''abcd'' 4 \<lparr>pos := 4\<rparr>) \<noteq> 0 \<and>
   printbuf_overflowed (PRINTBUF_EXTERN ''abcd'' 4 \<lparr>pos := 4\<rparr>) \<and>
   printbuf_written (PRINTBUF_EXTERN ''abcd'' 4 \<lparr>pos := 4\<rparr>)
     < pos (PRINTBUF_EXTERN ''abcd'' 4 \<lparr>pos := 4\<rparr>) \<and>
   size_f (PRINTBUF \<lparr>pos := 3\<rparr>) = 0 \<and>
   pos (PRINTBUF \<lparr>pos := 3\<rparr>) \<noteq> 0 \<and>
   printbuf_overflowed (PRINTBUF \<lparr>pos := 3\<rparr>) \<and>
   printbuf_written (PRINTBUF \<lparr>pos := 3\<rparr>) < pos (PRINTBUF \<lparr>pos := 3\<rparr>)"
  using printbuf_overflowed_spec [of "PRINTBUF_EXTERN ''abcd'' 4 \<lparr>pos := 4\<rparr>"]
    printbuf_overflowed_spec [of "PRINTBUF \<lparr>pos := 3\<rparr>"]
  by (simp add: PRINTBUF_EXTERN_def PRINTBUF_def printbuf_overflowed_def)

section \<open>The reserved variants\<close>

text \<open>
  Claim C4. For every printbuf state whose storage has \<^verbatim>\<open>size\<close> bytes,
  \<^verbatim>\<open>__prt_char_reserved\<close> advances pos by exactly 1 and \<^verbatim>\<open>__prt_chars_reserved(out, c, n)\<close>
  advances pos by exactly n (in \<^verbatim>\<open>unsigned\<close> arithmetic), however much room remains. They
  store at most min(n, \<^verbatim>\<open>printbuf_remaining(out)\<close>) bytes (with n = 1 for the first): the
  bytes before the old cursor and the bytes from the old cursor plus that minimum on are
  what they were. They never write to the terminator slot \<^verbatim>\<open>data[size - 1]\<close> or beyond:
  the bytes from index size - 1 on are what they were, the storage has the length it had,
  and no store faults.
\<close>

theorem reserved_contract:
  assumes ok: "storage_ok out"
  shows "\<exists>out1 outn.
     uu_prt_char_reserved out c = Inr out1 \<and>
     uu_prt_chars_reserved out c n = Inr outn \<and>
     pos out1 = pos out + 1 \<and>
     pos outn = pos out + n \<and>
     length (buf out1) = length (buf out) \<and>
     length (buf outn) = length (buf out) \<and>
     take (unat (pos out)) (buf out1) = take (unat (pos out)) (buf out) \<and>
     take (unat (pos out)) (buf outn) = take (unat (pos out)) (buf out) \<and>
     drop (unat (pos out) + min 1 (unat (printbuf_remaining out))) (buf out1) =
       drop (unat (pos out) + min 1 (unat (printbuf_remaining out))) (buf out) \<and>
     drop (unat (pos out) + unat (min n (printbuf_remaining out))) (buf outn) =
       drop (unat (pos out) + unat (min n (printbuf_remaining out))) (buf out) \<and>
     drop (unat (size_f out) - 1) (buf out1) = drop (unat (size_f out) - 1) (buf out) \<and>
     drop (unat (size_f out) - 1) (buf outn) = drop (unat (size_f out) - 1) (buf out)"
proof -
  have 1: "uu_prt_char_reserved out c = Inr (put out [c])"
    using ok by (rule uu_prt_char_reserved_put)
  have n: "uu_prt_chars_reserved out c n = Inr (put out (replicate (unat n) c))"
    using ok by (rule uu_prt_chars_reserved_put)
  have k1: "min (length [c]) (unat (printbuf_remaining out)) = min 1 (unat (printbuf_remaining out))"
    by simp
  have kn: "min (length (replicate (unat n) c)) (unat (printbuf_remaining out)) =
            unat (min n (printbuf_remaining out))"
    by (simp add: unat_min)
  show ?thesis
    apply (rule exI [of _ "put out [c]"])
    apply (rule exI [of _ "put out (replicate (unat n) c)"])
    using put_frame(1-3) [OF ok, of "[c]"] put_frame(1-3) [OF ok, of "replicate (unat n) c"]
    unfolding k1 kn
    by (simp add: 1 n length_buf_put [OF ok])
qed

theorem reserved_contract_witness:
  "storage_ok (PRINTBUF_EXTERN ''abcd'' 4) \<and>
   map_sum id pos (uu_prt_char_reserved (PRINTBUF_EXTERN ''abcd'' 4) CHR ''x'') = Inr 1 \<and>
   map_sum id pos (uu_prt_chars_reserved (PRINTBUF_EXTERN ''abcd'' 4) CHR ''x'' 5) = Inr 5 \<and>
   map_sum id (\<lambda>out. drop 3 (buf out))
     (uu_prt_chars_reserved (PRINTBUF_EXTERN ''abcd'' 4) CHR ''x'' 5) = Inr ''d''"
proof -
  have ok: "storage_ok (PRINTBUF_EXTERN ''abcd'' 4)"
    by (simp add: storage_ok_def PRINTBUF_EXTERN_def)
  from reserved_contract [OF ok, of "CHR ''x''" 5] obtain out1 outn where
    "uu_prt_char_reserved (PRINTBUF_EXTERN ''abcd'' 4) CHR ''x'' = Inr out1"
    "uu_prt_chars_reserved (PRINTBUF_EXTERN ''abcd'' 4) CHR ''x'' 5 = Inr outn"
    "pos out1 = pos (PRINTBUF_EXTERN ''abcd'' 4) + 1"
    "pos outn = pos (PRINTBUF_EXTERN ''abcd'' 4) + 5"
    "drop (unat (size_f (PRINTBUF_EXTERN ''abcd'' 4)) - 1) (buf outn) =
     drop (unat (size_f (PRINTBUF_EXTERN ''abcd'' 4)) - 1) (buf (PRINTBUF_EXTERN ''abcd'' 4))"
    by blast
  then show ?thesis using ok by (simp add: PRINTBUF_EXTERN_def)
qed

section \<open>Stores stay inside the storage\<close>

text \<open>
  Claim C5. No operation defined in the header (reserved writes, public writes,
  nul-termination, and also reset and the atomic counter) stores a byte at an index at
  or beyond the capacity. A store at an index that is not below the length of the storage
  makes \<open>run\<close> return the fault \<open>Store_Out_Of_Bounds\<close>. Here the storage has exactly
  \<^verbatim>\<open>size\<close> bytes before the calls, and \<^verbatim>\<open>printbuf_make_room\<close> keeps it that way when it
  grows the buffer. Then no sequence of calls (a single call is a sequence of one)
  returns that fault: every store is at an index below the capacity of the moment. When
  moreover every array handed to \<^verbatim>\<open>prt_bytes\<close> has the \<open>n\<close> bytes that the call names,
  the sequence returns a state, its storage has exactly \<^verbatim>\<open>size\<close> bytes, and so the bytes
  at the indices below min(pos, size) are bytes of the storage.
\<close>

theorem stores_in_bounds:
  assumes "storage_ok out" and "make_room_keeps_storage mr"
  shows "run mr cs out \<noteq> Inl Store_Out_Of_Bounds \<and>
         ((\<forall>c\<in>set cs. valid_call c) \<longrightarrow>
          (\<exists>out'. run mr cs out = Inr out' \<and> storage_ok out' \<and>
                  min (unat (pos out')) (unat (size_f out')) \<le> length (buf out')))"
proof (intro conjI impI)
  show "run mr cs out \<noteq> Inl Store_Out_Of_Bounds"
    using run_no_store_fault [OF assms, of cs] by auto
next
  assume "\<forall>c\<in>set cs. valid_call c"
  with assms obtain out' where "run mr cs out = Inr out'" "storage_ok out'"
    using run_storage by blast
  then show "\<exists>out'. run mr cs out = Inr out' \<and> storage_ok out' \<and>
                  min (unat (pos out')) (unat (size_f out')) \<le> length (buf out')"
    by (auto simp: storage_ok_def)
qed

theorem stores_in_bounds_witness:
  "storage_ok PRINTBUF \<and>
   make_room_keeps_storage (printbuf_make_room 16 alloc_ok) \<and>
   valid_call (Call_prt_bytes ''hello, world'' 12) \<and>
   valid_call (Call_uu_prt_chars_reserved CHR ''!'' 40) \<and>
   valid_call Call_printbuf_nul_terminate \<and>
   run (printbuf_make_room 16 alloc_ok)
     [Call_prt_bytes ''hello, world'' 12, Call_uu_prt_chars_reserved CHR ''!'' 40,
      Call_printbuf_nul_terminate] PRINTBUF \<noteq> Inl Store_Out_Of_Bounds \<and>
   (\<exists>out'. run (printbuf_make_room 16 alloc_ok)
             [Call_prt_bytes ''hello, world'' 12, Call_uu_prt_chars_reserved CHR ''!'' 40,
              Call_printbuf_nul_terminate] PRINTBUF = Inr out' \<and>
           storage_ok out' \<and>
           min (unat (pos out')) (unat (size_f out')) \<le> length (buf out'))"
proof -
  have ok: "storage_ok PRINTBUF" by (simp add: storage_ok_def PRINTBUF_def)
  note ks = printbuf_make_room_keeps_storage [of 16 alloc_ok]
  from stores_in_bounds [OF ok ks,
      of "[Call_prt_bytes ''hello, world'' 12, Call_uu_prt_chars_reserved CHR ''!'' 40,
           Call_printbuf_nul_terminate]"]
  show ?thesis using ok ks by simp
qed

section \<open>Public writes terminate the string\<close>

text \<open>
  Claim C6. After every public write operation (\<^verbatim>\<open>prt_char\<close>, \<^verbatim>\<open>prt_chars\<close>,
  \<^verbatim>\<open>prt_bytes\<close>, \<^verbatim>\<open>prt_str\<close>, \<^verbatim>\<open>prt_hex_byte\<close>, \<^verbatim>\<open>prt_hex_byte_upper\<close>) on a printbuf
  with size > 0, the stored byte at index min(pos, size - 1) is 0, for any requested
  length, truncated or not. pos and size are those after the call. The byte is 0
  whenever size is positive after the call; and it is positive after the call when it
  was before, if \<^verbatim>\<open>printbuf_make_room\<close> never shrinks the buffer.
\<close>

theorem public_write_terminated:
  assumes ok: "storage_ok out" and ks: "make_room_keeps_storage mr"
    and pw: "public_write c" and v: "valid_call c"
  shows "\<exists>out'. exec mr c out = Inr out' \<and>
           (size_f out' \<noteq> 0 \<longrightarrow>
              buf out' ! min (unat (pos out')) (unat (size_f out') - 1) = NUL) \<and>
           (make_room_never_shrinks mr \<and> size_f out \<noteq> 0 \<longrightarrow> size_f out' \<noteq> 0)"
proof -
  have st: "\<And>p k. storage_ok p \<Longrightarrow> storage_ok (mr p k)"
    using ks by (simp add: make_room_keeps_storage_def)
  have sz: "size_f (mr p k) \<noteq> 0" if "make_room_never_shrinks mr" and "size_f p \<noteq> 0" for p k
  proof -
    have "size_f p \<le> size_f (mr p k)" using that(1) by (simp add: make_room_never_shrinks_def)
    then have "unat (size_f p) \<le> unat (size_f (mr p k))" by (simp add: word_le_nat_alt)
    moreover have "0 < unat (size_f p)" using that(2) by (simp add: unat_gt_0)
    ultimately have "0 < unat (size_f (mr p k))" by simp
    then show ?thesis by (simp add: unat_gt_0)
  qed
  have t: "(size_f (terminate (mr p 1)) \<noteq> 0 \<longrightarrow>
      buf (terminate (mr p 1)) !
        min (unat (pos (terminate (mr p 1)))) (unat (size_f (terminate (mr p 1))) - 1) = NUL) \<and>
      (make_room_never_shrinks mr \<and> size_f p \<noteq> 0 \<longrightarrow> size_f (terminate (mr p 1)) \<noteq> 0)"
    if "storage_ok p" for p
    using terminate_nul [OF st [OF that, of 1]] sz [of p 1] by simp
  have e: "exec mr c out = Inr (effect mr c out)" using ok ks v by (rule exec_effect)
  have "(size_f (effect mr c out) \<noteq> 0 \<longrightarrow>
          buf (effect mr c out) !
            min (unat (pos (effect mr c out))) (unat (size_f (effect mr c out)) - 1) = NUL) \<and>
        (make_room_never_shrinks mr \<and> size_f out \<noteq> 0 \<longrightarrow> size_f (effect mr c out) \<noteq> 0)"
    using pw
  proof (cases c)
    case (Call_prt_char ch)
    show ?thesis unfolding Call_prt_char effect.simps
      using t [of "put (mr out 1) [ch]"] sz [of out 1] ok by (simp add: st)
  next
    case (Call_prt_chars ch n)
    show ?thesis unfolding Call_prt_chars effect.simps
      using t [of "put (mr out n) (replicate (unat n) ch)"] sz [of out n] ok by (simp add: st)
  next
    case (Call_prt_bytes b n)
    show ?thesis unfolding Call_prt_bytes effect.simps
      using t [of "put (mr out n) (take (unat n) b)"] sz [of out n] ok by (simp add: st)
  next
    case (Call_prt_str str)
    show ?thesis unfolding Call_prt_str effect.simps
      using t [of "put (mr out (of_nat (strlen str)))
                     (take (unat (of_nat (strlen str) :: u32)) str)"]
        sz [of out "of_nat (strlen str)"] ok by (simp add: st)
  next
    case (Call_prt_hex_byte byte)
    show ?thesis unfolding Call_prt_hex_byte effect.simps
      using t [of "put (put (mr out 2) [hex_asc_hi byte]) [hex_asc_lo byte]"] sz [of out 2] ok
      by (simp add: st)
  next
    case (Call_prt_hex_byte_upper byte)
    show ?thesis unfolding Call_prt_hex_byte_upper effect.simps
      using t [of "put (put (mr out 2) [hex_asc_upper_hi byte]) [hex_asc_upper_lo byte]"]
        sz [of out 2] ok
      by (simp add: st)
  qed simp_all
  then show ?thesis using e by simp
qed

theorem public_write_terminated_witness:
  "storage_ok (PRINTBUF_EXTERN ''abcd'' 4) \<and>
   make_room_keeps_storage (printbuf_make_room 16 alloc_ok) \<and>
   make_room_never_shrinks (printbuf_make_room 16 alloc_ok) \<and>
   size_f (PRINTBUF_EXTERN ''abcd'' 4) \<noteq> 0 \<and>
   public_write (Call_prt_str ''hello'') \<and>
   valid_call (Call_prt_str ''hello'') \<and>
   (\<exists>out'. exec (printbuf_make_room 16 alloc_ok) (Call_prt_str ''hello'')
             (PRINTBUF_EXTERN ''abcd'' 4) = Inr out' \<and>
           size_f out' \<noteq> 0 \<and>
           buf out' ! min (unat (pos out')) (unat (size_f out') - 1) = NUL)"
proof -
  have ok: "storage_ok (PRINTBUF_EXTERN ''abcd'' 4)"
    by (simp add: storage_ok_def PRINTBUF_EXTERN_def)
  have nz: "size_f (PRINTBUF_EXTERN ''abcd'' 4) \<noteq> 0" by (simp add: PRINTBUF_EXTERN_def)
  have pw: "public_write (Call_prt_str ''hello'')" by simp
  have v: "valid_call (Call_prt_str ''hello'')" by simp
  note ks = printbuf_make_room_keeps_storage [of 16 alloc_ok]
  note ns = printbuf_make_room_never_shrinks [of 16 alloc_ok]
  from public_write_terminated [OF ok ks pw v] nz ns
  obtain out' where "exec (printbuf_make_room 16 alloc_ok) (Call_prt_str ''hello'')
             (PRINTBUF_EXTERN ''abcd'' 4) = Inr out'" "size_f out' \<noteq> 0"
     "buf out' ! min (unat (pos out')) (unat (size_f out') - 1) = NUL"
    by blast
  then show ?thesis using ok nz ks ns pw v by blast
qed

section \<open>Reset and reuse\<close>

text \<open>
  Claim C7, as stated: for every printbuf, calling \<^verbatim>\<open>printbuf_reset\<close> and then performing
  any sequence of operations from the header behaves identically (same stored content,
  same cursor, same accessor results) to performing the same sequence on a freshly
  constructed buffer of the same capacity: \<^verbatim>\<open>PRINTBUF_EXTERN\<close> with the same storage and
  size, or a fresh \<^verbatim>\<open>PRINTBUF\<close> for a zero-capacity heap buffer. It fails in two ways,
  both through fields that \<^verbatim>\<open>printbuf_reset\<close> leaves as they are and a fresh buffer has
  as zero.

  The unit mode. On an external buffer of 16 bytes in decimal mode
  (\<^verbatim>\<open>si_units = PRINTBUF_UNITS_10\<close>), \<^verbatim>\<open>prt_human_readable_u64\<close> of 1500000 after
  \<^verbatim>\<open>printbuf_reset\<close> writes "1.5M"; on \<^verbatim>\<open>PRINTBUF_EXTERN\<close> with the same storage and
  size, which is in binary mode, it writes "1.4M".

  The atomic counter. On a zero-capacity heap buffer with atomic counter 1, with an
  allocator that refuses non-blocking requests, \<^verbatim>\<open>prt_char(out, 'a')\<close> after
  \<^verbatim>\<open>printbuf_reset\<close> stores nothing and sets the failure flag; on a fresh \<^verbatim>\<open>PRINTBUF\<close>
  the allocation succeeds and "a" is stored.

  \<^verbatim>\<open>prt_human_readable_u64\<close> and \<^verbatim>\<open>printbuf_make_room\<close> are the models made from the
  spec.
\<close>

theorem reset_reuse_counterexample:
  "\<not> heap_allocated (PRINTBUF_EXTERN ''................'' 16 \<lparr>si_units := PRINTBUF_UNITS_10\<rparr>) \<and>
   buf (PRINTBUF_EXTERN ''................'' 16 \<lparr>si_units := PRINTBUF_UNITS_10\<rparr>) =
     ''................'' \<and>
   size_f (PRINTBUF_EXTERN ''................'' 16 \<lparr>si_units := PRINTBUF_UNITS_10\<rparr>) = 16 \<and>
   map_sum id written_bytes
     (prt_human_readable_u64 (printbuf_make_room 16 alloc_ok)
        (printbuf_reset (PRINTBUF_EXTERN ''................'' 16 \<lparr>si_units := PRINTBUF_UNITS_10\<rparr>))
        1500000) = Inr ''1.5M'' \<and>
   map_sum id written_bytes
     (prt_human_readable_u64 (printbuf_make_room 16 alloc_ok)
        (PRINTBUF_EXTERN ''................'' 16) 1500000) = Inr ''1.4M'' \<and>
   heap_allocated (PRINTBUF \<lparr>atomic := 1\<rparr>) \<and>
   size_f (PRINTBUF \<lparr>atomic := 1\<rparr>) = 0 \<and>
   map_sum id written_bytes
     (prt_char (printbuf_make_room 16 alloc_blocking_only)
        (printbuf_reset (PRINTBUF \<lparr>atomic := 1\<rparr>)) CHR ''a'') = Inr [] \<and>
   map_sum id allocation_failure
     (prt_char (printbuf_make_room 16 alloc_blocking_only)
        (printbuf_reset (PRINTBUF \<lparr>atomic := 1\<rparr>)) CHR ''a'') = Inr True \<and>
   map_sum id written_bytes
     (prt_char (printbuf_make_room 16 alloc_blocking_only) PRINTBUF CHR ''a'') = Inr ''a'' \<and>
   map_sum id allocation_failure
     (prt_char (printbuf_make_room 16 alloc_blocking_only) PRINTBUF CHR ''a'') = Inr False"
proof -
  have fields:
    "\<not> heap_allocated (PRINTBUF_EXTERN ''................'' 16 \<lparr>si_units := PRINTBUF_UNITS_10\<rparr>)"
    "buf (PRINTBUF_EXTERN ''................'' 16 \<lparr>si_units := PRINTBUF_UNITS_10\<rparr>) =
       ''................''"
    "size_f (PRINTBUF_EXTERN ''................'' 16 \<lparr>si_units := PRINTBUF_UNITS_10\<rparr>) = 16"
    "heap_allocated (PRINTBUF \<lparr>atomic := 1\<rparr>)"
    "size_f (PRINTBUF \<lparr>atomic := 1\<rparr>) = 0"
    by (simp_all add: PRINTBUF_EXTERN_def PRINTBUF_def)
  from fields stale_unit_mode_run atomic_allocation_run show ?thesis
    by (intro conjI)
qed

text \<open>
  Claim C7, amended: for every printbuf, calling \<^verbatim>\<open>printbuf_reset\<close> and then performing any
  sequence of the operations that the header defines with a body and that write or
  manage the buffer (\<^verbatim>\<open>__prt_char_reserved\<close>, \<^verbatim>\<open>__prt_char\<close>, \<^verbatim>\<open>prt_char\<close>,
  \<^verbatim>\<open>__prt_chars_reserved\<close>, \<^verbatim>\<open>prt_chars\<close>, \<^verbatim>\<open>prt_bytes\<close>, \<^verbatim>\<open>prt_str\<close>, \<^verbatim>\<open>prt_hex_byte\<close>,
  \<^verbatim>\<open>prt_hex_byte_upper\<close>, \<^verbatim>\<open>printbuf_nul_terminate\<close>, \<^verbatim>\<open>printbuf_reset\<close>,
  \<^verbatim>\<open>printbuf_atomic_inc\<close>, \<^verbatim>\<open>printbuf_atomic_dec\<close>) gives the same stored content, the
  same capacity, the same cursor and the same accessor results (and the same fault, if a
  call faults) as performing the same sequence on a freshly constructed buffer:
  \<^verbatim>\<open>PRINTBUF_EXTERN\<close> with the same storage and size for an external buffer, a fresh
  \<^verbatim>\<open>PRINTBUF\<close> for a zero-capacity heap buffer whose atomic counter is 0. The operations
  that the header only declares (the formatters, tabstops, indentation, newline) and
  \<^verbatim>\<open>prt_str_indented\<close>, which forwards to one of them, are not covered.

  For the external buffer \<^verbatim>\<open>printbuf_make_room\<close> does nothing, as the spec says. For the
  heap buffer it treats alike two states that agree on storage, capacity, cursor,
  ownership mode, failure flag and atomic counter (\<open>make_room_uniform\<close>); the model of
  \<^verbatim>\<open>printbuf_make_room\<close> does so with every allocator
  (\<open>printbuf_make_room_uniform\<close>).
\<close>

theorem reset_reuse:
  "(make_room_extern_noop mr \<and> \<not> heap_allocated p \<longrightarrow>
      map_sum id observe (run mr cs (printbuf_reset p)) =
      map_sum id observe (run mr cs (PRINTBUF_EXTERN (buf p) (size_f p)))) \<and>
   (make_room_uniform mr \<and> heap_allocated p \<and> size_f p = 0 \<and> storage_ok p \<and> atomic p = 0 \<longrightarrow>
      map_sum id observe (run mr cs (printbuf_reset p)) =
      map_sum id observe (run mr cs PRINTBUF))"
proof (intro conjI impI)
  assume a: "make_room_extern_noop mr \<and> \<not> heap_allocated p"
  then have "same_core (printbuf_reset p) (PRINTBUF_EXTERN (buf p) (size_f p))"
    and "\<not> heap_allocated (printbuf_reset p)"
    by (simp_all add: same_core_def printbuf_reset_def PRINTBUF_EXTERN_def)
  with a show "map_sum id observe (run mr cs (printbuf_reset p)) =
             map_sum id observe (run mr cs (PRINTBUF_EXTERN (buf p) (size_f p)))"
    by (intro run_extern) simp_all
next
  assume a: "make_room_uniform mr \<and> heap_allocated p \<and> size_f p = 0 \<and> storage_ok p \<and>
             atomic p = 0"
  then have "same_for_make_room (printbuf_reset p) PRINTBUF"
    by (auto simp: same_for_make_room_def same_core_def printbuf_reset_def PRINTBUF_def
          storage_ok_def)
  with a show "map_sum id observe (run mr cs (printbuf_reset p)) =
             map_sum id observe (run mr cs PRINTBUF)"
    by (intro run_uniform) simp_all
qed

theorem reset_reuse_witness:
  "make_room_extern_noop (printbuf_make_room 16 alloc_blocking_only) \<and>
   \<not> heap_allocated (PRINTBUF_EXTERN ''abcdefgh'' 8
        \<lparr>pos := 5, last_newline := 3, last_field := 4, atomic := 2\<rparr>) \<and>
   map_sum id observe
     (run (printbuf_make_room 16 alloc_blocking_only)
        [Call_prt_str ''hi'', Call_printbuf_atomic_dec, Call_prt_hex_byte 0x2A]
        (printbuf_reset (PRINTBUF_EXTERN ''abcdefgh'' 8
           \<lparr>pos := 5, last_newline := 3, last_field := 4, atomic := 2\<rparr>))) =
   map_sum id observe
     (run (printbuf_make_room 16 alloc_blocking_only)
        [Call_prt_str ''hi'', Call_printbuf_atomic_dec, Call_prt_hex_byte 0x2A]
        (PRINTBUF_EXTERN ''abcdefgh'' 8)) \<and>
   make_room_uniform (printbuf_make_room 16 alloc_blocking_only) \<and>
   heap_allocated (PRINTBUF \<lparr>pos := 9, last_newline := 2, si_units := PRINTBUF_UNITS_10\<rparr>) \<and>
   size_f (PRINTBUF \<lparr>pos := 9, last_newline := 2, si_units := PRINTBUF_UNITS_10\<rparr>) = 0 \<and>
   storage_ok (PRINTBUF \<lparr>pos := 9, last_newline := 2, si_units := PRINTBUF_UNITS_10\<rparr>) \<and>
   atomic (PRINTBUF \<lparr>pos := 9, last_newline := 2, si_units := PRINTBUF_UNITS_10\<rparr>) = 0 \<and>
   map_sum id observe
     (run (printbuf_make_room 16 alloc_blocking_only)
        [Call_prt_str ''hi'', Call_printbuf_atomic_inc, Call_prt_hex_byte 0x2A]
        (printbuf_reset (PRINTBUF \<lparr>pos := 9, last_newline := 2, si_units := PRINTBUF_UNITS_10\<rparr>))) =
   map_sum id observe
     (run (printbuf_make_room 16 alloc_blocking_only)
        [Call_prt_str ''hi'', Call_printbuf_atomic_inc, Call_prt_hex_byte 0x2A] PRINTBUF)"
proof -
  let ?mr = "printbuf_make_room 16 alloc_blocking_only"
  let ?cs = "[Call_prt_str ''hi'', Call_printbuf_atomic_dec, Call_prt_hex_byte 0x2A]"
  let ?cs' = "[Call_prt_str ''hi'', Call_printbuf_atomic_inc, Call_prt_hex_byte 0x2A]"
  let ?p1 = "PRINTBUF_EXTERN ''abcdefgh'' 8
        \<lparr>pos := 5, last_newline := 3, last_field := 4, atomic := 2\<rparr>"
  let ?p2 = "PRINTBUF \<lparr>pos := 9, last_newline := 2, si_units := PRINTBUF_UNITS_10\<rparr>"
  have noop: "make_room_extern_noop ?mr" by (rule printbuf_make_room_extern_noop)
  have uni: "make_room_uniform ?mr" by (rule printbuf_make_room_uniform)
  have e: "\<not> heap_allocated ?p1" "buf ?p1 = ''abcdefgh''" "size_f ?p1 = 8"
    by (simp_all add: PRINTBUF_EXTERN_def)
  have h: "heap_allocated ?p2" "size_f ?p2 = 0" "storage_ok ?p2" "atomic ?p2 = 0"
    by (simp_all add: PRINTBUF_def storage_ok_def)
  from reset_reuse [where mr = ?mr and p = ?p1 and cs = ?cs] noop e(1)
  have 1: "map_sum id observe (run ?mr ?cs (printbuf_reset ?p1)) =
           map_sum id observe (run ?mr ?cs (PRINTBUF_EXTERN (buf ?p1) (size_f ?p1)))"
    by blast
  from reset_reuse [where mr = ?mr and p = ?p2 and cs = ?cs'] uni h
  have 2: "map_sum id observe (run ?mr ?cs' (printbuf_reset ?p2)) =
           map_sum id observe (run ?mr ?cs' PRINTBUF)"
    by blast
  from 1 2 noop uni e(1) h show ?thesis unfolding e(2,3) by blast
qed

section \<open>The cursor\<close>

text \<open>
  Claim C8, as stated: for every printbuf state and every operation defined in the
  header other than \<^verbatim>\<open>printbuf_reset\<close>, pos after the operation is greater than or equal
  to pos before it. It fails where the 32-bit cursor wraps around: with
  pos = 0xFFFFFFFF, \<^verbatim>\<open>__prt_char_reserved\<close> stores nothing and leaves pos = 0.
\<close>

theorem cursor_wraps_counterexample:
  "uu_prt_char_reserved (PRINTBUF_EXTERN ''abcd'' 4 \<lparr>pos := 0xFFFFFFFF\<rparr>) CHR ''x'' =
     Inr (PRINTBUF_EXTERN ''abcd'' 4 \<lparr>pos := 0\<rparr>) \<and>
   \<not> pos (PRINTBUF_EXTERN ''abcd'' 4 \<lparr>pos := 0xFFFFFFFF\<rparr>)
       \<le> pos (PRINTBUF_EXTERN ''abcd'' 4 \<lparr>pos := 0\<rparr>)"
  by (simp add: uu_prt_char_reserved_def printbuf_remaining_def PRINTBUF_EXTERN_def)

text \<open>
  Claim C8, amended: for every printbuf state and every operation defined in the header
  other than \<^verbatim>\<open>printbuf_reset\<close>, if pos plus the number of bytes that the operation is
  asked to append is below 2^32, then pos after the operation is pos before it plus that
  number, hence greater than or equal to pos before it. (\<^verbatim>\<open>printbuf_make_room\<close> is taken
  to leave pos alone.)
\<close>

theorem cursor_monotone:
  assumes ok: "storage_ok out" and ks: "make_room_keeps_storage mr"
    and kp: "make_room_keeps_pos mr" and v: "valid_call c"
    and nr: "c \<noteq> Call_printbuf_reset"
    and nw: "unat (pos out) + length (requested c) < 2 ^ 32"
  shows "\<exists>out'. exec mr c out = Inr out' \<and>
           unat (pos out') = unat (pos out) + length (requested c) \<and>
           pos out \<le> pos out'"
proof -
  have e: "exec mr c out = Inr (effect mr c out)" using ok ks v by (rule exec_effect)
  have "length (requested c) < 2 ^ 32" using nw by simp
  then have "unat (of_nat (length (requested c)) :: u32) = length (requested c)"
    by (rule unat_of_nat_u32)
  then have "unat (pos out + of_nat (length (requested c))) = unat (pos out) + length (requested c)"
    using nw by (simp add: unat_plus_u32)
  then have u: "unat (pos (effect mr c out)) = unat (pos out) + length (requested c)"
    using pos_effect [OF kp v nr] by simp
  then have "pos out \<le> pos (effect mr c out)" by (simp add: word_le_nat_alt)
  then show ?thesis using e u by simp
qed

theorem cursor_monotone_witness:
  "storage_ok (PRINTBUF_EXTERN ''abcd'' 4 \<lparr>pos := 7\<rparr>) \<and>
   make_room_keeps_storage (printbuf_make_room 16 alloc_ok) \<and>
   make_room_keeps_pos (printbuf_make_room 16 alloc_ok) \<and>
   valid_call (Call_prt_chars CHR ''x'' 5) \<and>
   Call_prt_chars CHR ''x'' 5 \<noteq> Call_printbuf_reset \<and>
   (\<exists>out'. exec (printbuf_make_room 16 alloc_ok) (Call_prt_chars CHR ''x'' 5)
             (PRINTBUF_EXTERN ''abcd'' 4 \<lparr>pos := 7\<rparr>) = Inr out' \<and>
           unat (pos out') = 12 \<and>
           pos (PRINTBUF_EXTERN ''abcd'' 4 \<lparr>pos := 7\<rparr>) \<le> pos out')"
proof -
  have ok: "storage_ok (PRINTBUF_EXTERN ''abcd'' 4 \<lparr>pos := 7\<rparr>)"
    by (simp add: storage_ok_def PRINTBUF_EXTERN_def)
  have v: "valid_call (Call_prt_chars CHR ''x'' 5)" by simp
  have nr: "Call_prt_chars CHR ''x'' 5 \<noteq> Call_printbuf_reset" by simp
  have nw: "unat (pos (PRINTBUF_EXTERN ''abcd'' 4 \<lparr>pos := 7\<rparr>)) +
            length (requested (Call_prt_chars CHR ''x'' 5)) < 2 ^ 32"
    by (simp add: PRINTBUF_EXTERN_def)
  note ks = printbuf_make_room_keeps_storage [of 16 alloc_ok]
  note kp = printbuf_make_room_keeps_pos [of 16 alloc_ok]
  from cursor_monotone [OF ok ks kp v nr nw]
  show ?thesis using ok ks kp by (simp add: PRINTBUF_EXTERN_def)
qed

section \<open>Human-readable units\<close>

text \<open>
  Claim C9. With human-readable units enabled, \<^verbatim>\<open>prt_human_readable_u64\<close> renders 1536
  in binary mode as "1.5K" and 1500000 in decimal mode as "1.5M"; 0 renders as "0" in both
  modes; \<^verbatim>\<open>prt_human_readable_s64\<close> renders -2048 in binary mode as "-2.0K"; the
  fractional digit is truncated, not rounded (2047 in binary mode is "1.9K"). The output
  goes to an external buffer of 16 bytes and is read back as the bytes before the
  terminator. The formatter is the model made from the spec.
\<close>

theorem human_readable_rendering:
  "map_sum id written_bytes
     (prt_human_readable_u64 (printbuf_make_room chunk alloc)
        (PRINTBUF_EXTERN ''................'' 16
           \<lparr>si_units := PRINTBUF_UNITS_2, human_readable_units := True\<rparr>) 1536) = Inr ''1.5K'' \<and>
   map_sum id written_bytes
     (prt_human_readable_u64 (printbuf_make_room chunk alloc)
        (PRINTBUF_EXTERN ''................'' 16
           \<lparr>si_units := PRINTBUF_UNITS_10, human_readable_units := True\<rparr>) 1500000) = Inr ''1.5M'' \<and>
   map_sum id written_bytes
     (prt_human_readable_u64 (printbuf_make_room chunk alloc)
        (PRINTBUF_EXTERN ''................'' 16
           \<lparr>si_units := PRINTBUF_UNITS_2, human_readable_units := True\<rparr>) 0) = Inr ''0'' \<and>
   map_sum id written_bytes
     (prt_human_readable_u64 (printbuf_make_room chunk alloc)
        (PRINTBUF_EXTERN ''................'' 16
           \<lparr>si_units := PRINTBUF_UNITS_10, human_readable_units := True\<rparr>) 0) = Inr ''0'' \<and>
   map_sum id written_bytes
     (prt_human_readable_s64 (printbuf_make_room chunk alloc)
        (PRINTBUF_EXTERN ''................'' 16
           \<lparr>si_units := PRINTBUF_UNITS_2, human_readable_units := True\<rparr>) (- 2048)) = Inr ''-2.0K'' \<and>
   map_sum id written_bytes
     (prt_human_readable_u64 (printbuf_make_room chunk alloc)
        (PRINTBUF_EXTERN ''................'' 16
           \<lparr>si_units := PRINTBUF_UNITS_2, human_readable_units := True\<rparr>) 2047) = Inr ''1.9K''"
  by (intro conjI hr_1536 hr_1500000 hr_0 hr_minus_2048 hr_2047)

section \<open>printbuf_reset\<close>

text \<open>
  Claim C10. \<^verbatim>\<open>printbuf_reset\<close> sets pos, allocation_failure, indent, nr_tabstops and
  cur_tabstop to 0 and leaves every other field as it was: buf, size, heap_allocated,
  atomic, si_units, human_readable_units, has_indent_or_tabstops,
  suppress_indent_tabstop_handling, the tabstop array, and also last_newline and
  last_field.
\<close>

theorem printbuf_reset_frame:
  "pos (printbuf_reset b) = 0 \<and>
   allocation_failure (printbuf_reset b) = False \<and>
   indent (printbuf_reset b) = 0 \<and>
   nr_tabstops (printbuf_reset b) = 0 \<and>
   cur_tabstop (printbuf_reset b) = 0 \<and>
   buf (printbuf_reset b) = buf b \<and>
   size_f (printbuf_reset b) = size_f b \<and>
   last_newline (printbuf_reset b) = last_newline b \<and>
   last_field (printbuf_reset b) = last_field b \<and>
   atomic (printbuf_reset b) = atomic b \<and>
   heap_allocated (printbuf_reset b) = heap_allocated b \<and>
   si_units (printbuf_reset b) = si_units b \<and>
   human_readable_units (printbuf_reset b) = human_readable_units b \<and>
   has_indent_or_tabstops (printbuf_reset b) = has_indent_or_tabstops b \<and>
   suppress_indent_tabstop_handling (printbuf_reset b) = suppress_indent_tabstop_handling b \<and>
   tabstops (printbuf_reset b) = tabstops b"
  by (simp add: printbuf_reset_def)

end
